theory Spec2Isabelle
  imports Main "HOL-Library.Sublist" "HOL-Library.AList"
begin

section \<open>Python strings\<close>

text \<open>
  A Python \<open>str\<close> is a sequence of Unicode code points, and every length, slice and
  character class of the converters counts code points. A string is therefore a list of
  code points; \<open>u\<close> turns an ASCII literal into one. The three CJK characters of the
  journal titles are U+5E74 (year), U+6708 (month) and U+65E5 (day).
\<close>

type_synonym ustring = "nat list"

definition u :: "string \<Rightarrow> ustring" where
  "u s = map of_char s"

text \<open>
  What a run takes from outside the repository: the interpreter's table of decimal
  digits beyond ASCII (the class \<open>\d\<close> of \<open>re\<close> on \<open>str\<close> patterns), the draws of
  \<open>uuid.uuid4().hex\<close> in call order, and the file system. \<open>open_ok\<close> tells whether the
  directory of a page file can be created and the file opened for writing.
  \<open>write_cut target content\<close> is \<open>None\<close> when \<open>f.write(content)\<close> on the opened file
  completes, and \<open>Some left\<close> when it raises and the file is left holding \<open>left\<close>.
  \<open>report_ok\<close> tells whether \<open>conversion_report.json\<close> can be opened and the report
  dumped into it. \<open>asset_files\<close> lists the regular files below the \<open>assets\<close> directory
  of the export, each as its path and its name, in the order of \<open>rglob\<close>, and is \<open>None\<close>
  when the export has no such directory; \<open>assets_dir_ok\<close> tells whether the \<open>assets\<close>
  directory of the output can be created and \<open>copy_ok\<close> whether \<open>shutil.copy2\<close> of an
  asset succeeds. \<open>zip_ok\<close> tells whether the archive can be written.
\<close>

record env =
  uni_decimal :: "nat \<Rightarrow> bool"
  uuid4_hex :: "nat \<Rightarrow> ustring"
  open_ok :: "ustring \<Rightarrow> bool"
  write_cut :: "ustring \<Rightarrow> ustring \<Rightarrow> ustring option"
  report_ok :: bool
  asset_files :: "(ustring \<times> ustring) list option"
  assets_dir_ok :: bool
  copy_ok :: "ustring \<Rightarrow> bool"
  zip_ok :: bool

definition isdecimal :: "env \<Rightarrow> nat \<Rightarrow> bool" where
  "isdecimal e c = ((48 \<le> c \<and> c \<le> 57) \<or> (128 \<le> c \<and> uni_decimal e c))"

text \<open>The class \<open>\s\<close> and \<open>str.split()\<close>/\<open>str.strip()\<close>: the code points for which
  \<open>str.isspace\<close> holds.\<close>

definition isspace :: "nat \<Rightarrow> bool" where
  "isspace c = ((9 \<le> c \<and> c \<le> 13) \<or> (28 \<le> c \<and> c \<le> 32) \<or> c = 133 \<or> c = 160
     \<or> c = 5760 \<or> (8192 \<le> c \<and> c \<le> 8202) \<or> c = 8232 \<or> c = 8233 \<or> c = 8239
     \<or> c = 8287 \<or> c = 12288)"

text \<open>\<open>s.strip(chars)\<close>: drop the characters of the set from both ends.\<close>

definition strip :: "(nat \<Rightarrow> bool) \<Rightarrow> ustring \<Rightarrow> ustring" where
  "strip cs s = rev (dropWhile cs (rev (dropWhile cs s)))"

text \<open>\<open>s.split(sep)\<close> for a one-character separator: the pieces between the separators,
  at least one piece.\<close>

fun split_on :: "nat \<Rightarrow> ustring \<Rightarrow> ustring list" where
  "split_on sep [] = [[]]"
| "split_on sep (x # xs) =
     (if x = sep then [] # split_on sep xs
      else (case split_on sep xs of
              [] \<Rightarrow> [[x]]
            | piece # pieces \<Rightarrow> (x # piece) # pieces))"

section \<open>The regular expressions of the converters\<close>

text \<open>
  Every pattern of the two converters is a flat sequence of items: a character class
  with a quantifier (one, exactly n, greedy \<open>*\<close> and \<open>+\<close>, lazy \<open>*?\<close>), or one of the
  anchors \<open>^\<close> and \<open>$\<close>, which the source only uses under \<open>re.MULTILINE\<close>. Every group of
  the source wraps exactly one item, so a match is reported as the list of the pieces
  the items consumed, and group \<open>n\<close> is the piece of its item.

  \<open>rx\<close> is the backtracking matcher of \<open>re\<close> at one position: an item tries its
  repetition counts in priority order (greedy: longest first, lazy: shortest first) and
  the first count for which the rest of the pattern matches wins. \<open>prev\<close> is the
  character before the position (\<open>None\<close> at the start of the text), which \<open>^\<close> reads.
\<close>

datatype quant = Once | Exactly nat | Star | Plus | LazyStar

datatype item = Ch "nat \<Rightarrow> bool" quant | Bol | Eol

fun counts :: "quant \<Rightarrow> (nat \<Rightarrow> bool) \<Rightarrow> ustring \<Rightarrow> nat list" where
  "counts Once c s = (case s of [] \<Rightarrow> [] | x # _ \<Rightarrow> if c x then [1] else [])"
| "counts (Exactly m) c s = (if m \<le> length s \<and> list_all c (take m s) then [m] else [])"
| "counts Star c s = rev [0 ..< Suc (length (takeWhile c s))]"
| "counts Plus c s = rev [1 ..< Suc (length (takeWhile c s))]"
| "counts LazyStar c s = [0 ..< Suc (length (takeWhile c s))]"

fun first_some :: "('a \<Rightarrow> 'b option) \<Rightarrow> 'a list \<Rightarrow> 'b option" where
  "first_some f [] = None"
| "first_some f (k # ks) = (case f k of Some r \<Rightarrow> Some r | None \<Rightarrow> first_some f ks)"

definition prev_after :: "nat option \<Rightarrow> ustring \<Rightarrow> nat option" where
  "prev_after prev piece = (if piece = [] then prev else Some (last piece))"

fun rx :: "item list \<Rightarrow> nat option \<Rightarrow> ustring \<Rightarrow> ustring list option" where
  "rx [] prev s = Some []"
| "rx (Bol # p) prev s =
     (if prev = None \<or> prev = Some 10 then map_option ((#) []) (rx p prev s) else None)"
| "rx (Eol # p) prev s =
     (if s = [] \<or> hd s = 10 then map_option ((#) []) (rx p prev s) else None)"
| "rx (Ch c q # p) prev s =
     first_some
       (\<lambda>k. map_option ((#) (take k s)) (rx p (prev_after prev (take k s)) (drop k s)))
       (counts q c s)"

text \<open>\<open>re.match(p, s)\<close>: a match at the start of \<open>s\<close>, of any length.\<close>

definition re_match :: "item list \<Rightarrow> ustring \<Rightarrow> bool" where
  "re_match p s = (rx p None s \<noteq> None)"

text \<open>
  \<open>re.sub\<close> scans left to right: at each position the leftmost match is taken, the scan
  resumes behind it, and a character at which nothing matches is copied. \<open>re_scan\<close>
  returns the scan as tokens, a copied character or a match with its pieces; the
  counter is the number of characters still covered by the last match. Every pattern
  that the converters pass to \<open>re.sub\<close> holds an item for exactly one character, so
  none of them matches the empty string, and an empty match counts as none.
\<close>

datatype tok = Lit nat | Hit "ustring list"

fun re_scan :: "item list \<Rightarrow> nat option \<Rightarrow> nat \<Rightarrow> ustring \<Rightarrow> tok list" where
  "re_scan p prev k [] = []"
| "re_scan p prev (Suc k) (x # xs) = re_scan p (Some x) k xs"
| "re_scan p prev 0 (x # xs) =
     (case rx p prev (x # xs) of
        None \<Rightarrow> Lit x # re_scan p (Some x) 0 xs
      | Some ps \<Rightarrow>
          (if concat ps = [] then Lit x # re_scan p (Some x) 0 xs
           else Hit ps # re_scan p (Some x) (length (concat ps) - 1) xs))"

fun render :: "(ustring list \<Rightarrow> ustring) \<Rightarrow> tok \<Rightarrow> ustring" where
  "render repl (Lit x) = [x]"
| "render repl (Hit ps) = repl ps"

definition re_sub :: "item list \<Rightarrow> (ustring list \<Rightarrow> ustring) \<Rightarrow> ustring \<Rightarrow> ustring" where
  "re_sub p repl s = concat (map (render repl) (re_scan p None 0 s))"

text \<open>A literal piece of a pattern, and the class of one character.\<close>

definition lit :: "string \<Rightarrow> item list" where
  "lit s = map (\<lambda>ch. Ch (\<lambda>x. x = of_char ch) Once) s"

definition one_of :: "string \<Rightarrow> nat \<Rightarrow> bool" where
  "one_of s x = (x \<in> set (u s))"

section \<open>The plain converter: the registry\<close>

text \<open>
  \<open>LogSeqToNotionConverter\<close>. The object's attributes are a record: \<open>generate_uuid\<close> is
  the instance attribute that \<open>__init__\<close> sets from its argument, \<open>page_mapping\<close> the
  dictionary from page name to (file name, identifier), kept in insertion order, and
  \<open>asset_mapping\<close> the dictionary from the path of an asset to the name of its copy in
  the \<open>assets\<close> directory of the output, and \<open>conversion_log\<close> the list of logged
  messages. \<open>out_files\<close> is the output directory, the name of a page file to its content,
  and \<open>report_total_pages\<close> the field \<open>total_pages\<close> of \<open>conversion_report.json\<close> once
  it is written.

  A log line is kept as its message template and arguments; the time stamp in front of
  it is left out. For the plain converter: \<open>Scan_started\<close>, \<open>Page_mapped\<close> and
  \<open>Journal_mapped\<close> (key, file name) are the lines of \<open>scan_pages\<close>, \<open>Link_missing\<close> is
  the warning of \<open>replace_page_link\<close> with the name it did not find, \<open>Hierarchy_started\<close>
  and \<open>Page_prepared\<close> are the lines of \<open>create_page_hierarchy\<close>, \<open>Assets_started\<close>,
  \<open>Assets_missing\<close> and \<open>Asset_copied\<close> (name) those of \<open>copy_and_convert_assets\<close>,
  \<open>Content_started\<close> opens \<open>convert_all_pages\<close>, \<open>File_converted\<close> (source, target) and
  \<open>File_failed\<close> (source) are the two lines of \<open>convert_file\<close>, \<open>Report_written\<close> is the
  line of \<open>generate_conversion_report\<close>, \<open>Zip_started\<close>, \<open>Zip_written\<close>, \<open>Zip_size\<close> and
  \<open>Zip_failed\<close> are the lines of \<open>create_zip_package\<close> (without the path and the size),
  and \<open>Pages_total\<close> is the closing line of \<open>convert\<close> that reports how many pages were
  converted, with its count. For the tabular converter: \<open>Scan_started\<close> opens \<open>scan_and_convert_pages\<close>,
  \<open>Contents_skipped\<close>, \<open>Read_failed\<close> and \<open>Page_converted\<close> (stem, display name) are the
  lines of \<open>process_page_file\<close>, and \<open>Write_failed\<close> is the line of \<open>create_notion_page\<close>.
\<close>

datatype py_error = TypeError | ValueError | OSError

datatype log_entry =
    Scan_started
  | Page_mapped ustring ustring
  | Journal_mapped ustring ustring
  | Link_missing ustring
  | Hierarchy_started
  | Page_prepared ustring
  | Assets_started
  | Assets_missing
  | Asset_copied ustring
  | Content_started
  | File_converted ustring ustring
  | File_failed ustring
  | Report_written
  | Zip_started
  | Zip_written
  | Zip_size
  | Zip_failed
  | Pages_total nat
  | Contents_skipped
  | Read_failed ustring
  | Write_failed ustring
  | Page_converted ustring ustring

record converter =
  generate_uuid :: bool
  page_mapping :: "(ustring \<times> ustring \<times> ustring) list"
  asset_mapping :: "(ustring \<times> ustring) list"
  conversion_log :: "log_entry list"
  out_files :: "(ustring \<times> ustring) list"
  report_total_pages :: "nat option"

definition log :: "log_entry \<Rightarrow> converter \<Rightarrow> converter" where
  "log m c = c\<lparr>conversion_log := conversion_log c @ [m]\<rparr>"

text \<open>
  \<open>self.generate_uuid()\<close>: the class defines a method of this name, and \<open>__init__\<close>
  stores the boolean argument under the same name on the instance, so the call finds
  the boolean and raises \<open>TypeError\<close>.
\<close>

definition call_generate_uuid :: "converter \<Rightarrow> py_error + ustring" where
  "call_generate_uuid c = Inl TypeError"

text \<open>\<open>sanitize_filename\<close>: \<open>re.sub(r'[<>:"/\\|?*]', '_', filename)\<close>, then
  \<open>strip('. ')\<close>.\<close>

definition hostile :: "nat \<Rightarrow> bool" where
  "hostile x = (x \<in> {60, 62, 58, 34, 47, 92, 124, 63, 42})"

definition sanitize_filename :: "ustring \<Rightarrow> ustring" where
  "sanitize_filename filename =
     strip (one_of ''. '') (re_sub [Ch hostile Once] (\<lambda>_. u ''_'') filename)"

definition create_notion_filename :: "converter \<Rightarrow> ustring \<Rightarrow> ustring \<Rightarrow> ustring" where
  "create_notion_filename c page_name page_uuid =
     (let clean_name = sanitize_filename page_name in
      if generate_uuid c then clean_name @ u '' '' @ page_uuid @ u ''.md''
      else clean_name @ u ''.md'')"

text \<open>The identifier of one registry entry:
  \<open>self.generate_uuid() if self.generate_uuid else ""\<close>.\<close>

definition page_uuid_of :: "converter \<Rightarrow> py_error + ustring" where
  "page_uuid_of c = (if generate_uuid c then call_generate_uuid c else Inr [])"

definition map_page :: "ustring \<Rightarrow> converter \<Rightarrow> py_error + converter" where
  "map_page page_name c =
     (case page_uuid_of c of
        Inl err \<Rightarrow> Inl err
      | Inr page_uuid \<Rightarrow>
          (let notion_filename = create_notion_filename c page_name page_uuid in
           Inr (log (Page_mapped page_name notion_filename)
                  (c\<lparr>page_mapping :=
                       AList.update page_name (notion_filename, page_uuid) (page_mapping c)\<rparr>))))"

text \<open>
  The journal title: \<open>re.match(r'\d{4}_\d{2}_\d{2}', date_str)\<close> looks at the start of
  the stem only; on a match \<open>year, month, day = date_str.split('_')\<close> raises
  \<open>ValueError\<close> unless the stem has exactly three pieces.
\<close>

definition date_re :: "env \<Rightarrow> item list" where
  "date_re e =
     [Ch (isdecimal e) (Exactly 4)] @ lit ''_'' @ [Ch (isdecimal e) (Exactly 2)] @ lit ''_''
       @ [Ch (isdecimal e) (Exactly 2)]"

definition journal_page_name :: "env \<Rightarrow> ustring \<Rightarrow> py_error + ustring" where
  "journal_page_name e date_str =
     (if re_match (date_re e) date_str then
        (case split_on 95 date_str of
           [year, month, day] \<Rightarrow> Inr (year @ [24180] @ month @ [26376] @ day @ [26085])
         | _ \<Rightarrow> Inl ValueError)
      else Inr date_str)"

definition map_journal :: "env \<Rightarrow> ustring \<Rightarrow> converter \<Rightarrow> py_error + converter" where
  "map_journal e date_str c =
     (case journal_page_name e date_str of
        Inl err \<Rightarrow> Inl err
      | Inr page_name \<Rightarrow>
          (case page_uuid_of c of
             Inl err \<Rightarrow> Inl err
           | Inr page_uuid \<Rightarrow>
               (let notion_filename = create_notion_filename c page_name page_uuid in
                Inr (log (Journal_mapped date_str notion_filename)
                       (c\<lparr>page_mapping :=
                            AList.update date_str (notion_filename, page_uuid)
                              (page_mapping c)\<rparr>)))))"

text \<open>A \<open>for\<close> loop over the files of a directory, stopped by the first exception.\<close>

fun for_each :: "('a \<Rightarrow> 's \<Rightarrow> py_error + 's) \<Rightarrow> 'a list \<Rightarrow> 's \<Rightarrow> py_error + 's" where
  "for_each f [] c = Inr c"
| "for_each f (x # xs) c = (case f x c of Inl err \<Rightarrow> Inl err | Inr c' \<Rightarrow> for_each f xs c')"

text \<open>\<open>scan_pages\<close>, over the stems of \<open>pages/*.md\<close> and of \<open>journals/*.md\<close> in the order
  in which \<open>glob\<close> lists them.\<close>

definition scan_pages :: "env \<Rightarrow> ustring list \<Rightarrow> ustring list \<Rightarrow> converter \<Rightarrow> py_error + converter" where
  "scan_pages e pages journals c =
     (case for_each map_page pages (log Scan_started c) of
        Inl err \<Rightarrow> Inl err
      | Inr c' \<Rightarrow> for_each (map_journal e) journals c')"

text \<open>The object as \<open>__init__\<close> leaves it.\<close>

definition init :: "bool \<Rightarrow> converter" where
  "init flag = \<lparr>generate_uuid = flag, page_mapping = [], asset_mapping = [],
                 conversion_log = [], out_files = [], report_total_pages = None\<rparr>"

text \<open>An environment in which every file can be written, the export has no \<open>assets\<close>
  directory and no character beyond ASCII is a decimal digit; the inputs evaluated
  below are ASCII.\<close>

definition env0 :: env where
  "env0 = \<lparr>uni_decimal = (\<lambda>_. False), uuid4_hex = (\<lambda>_. u ''0123456789abcdef0123456789abcdef''),
            open_ok = (\<lambda>_. True), write_cut = (\<lambda>_ _. None), report_ok = True,
            asset_files = None, assets_dir_ok = True, copy_ok = (\<lambda>_. True), zip_ok = True\<rparr>"

section \<open>The plain converter: the Content Transformer\<close>

text \<open>
  \<open>urllib.parse.quote(s, safe)\<close>: the UTF-8 bytes of the string, each kept when it is
  an ASCII letter, a digit, one of \<open>_.-~\<close> or in \<open>safe\<close>, and written \<open>%XX\<close> with
  upper-case hexadecimal digits otherwise. Code points are taken to be Unicode scalar
  values, as in text decoded from UTF-8.
\<close>

definition utf8 :: "nat \<Rightarrow> nat list" where
  "utf8 c =
     (if c < 128 then [c]
      else if c < 2048 then [192 + c div 64, 128 + c mod 64]
      else if c < 65536 then [224 + c div 4096, 128 + (c div 64) mod 64, 128 + c mod 64]
      else [240 + c div 262144, 128 + (c div 4096) mod 64, 128 + (c div 64) mod 64,
            128 + c mod 64])"

definition unreserved :: "nat \<Rightarrow> bool" where
  "unreserved b = ((65 \<le> b \<and> b \<le> 90) \<or> (97 \<le> b \<and> b \<le> 122) \<or> (48 \<le> b \<and> b \<le> 57)
     \<or> b = 95 \<or> b = 46 \<or> b = 45 \<or> b = 126)"

definition hexdigit :: "nat \<Rightarrow> nat" where
  "hexdigit n = (if n < 10 then 48 + n else 55 + n)"

definition quote_byte :: "string \<Rightarrow> nat \<Rightarrow> ustring" where
  "quote_byte safe b =
     (if unreserved b \<or> one_of safe b then [b]
      else [37, hexdigit (b div 16), hexdigit (b mod 16)])"

definition quote :: "string \<Rightarrow> ustring \<Rightarrow> ustring" where
  "quote safe s = concat (map (\<lambda>c. concat (map (quote_byte safe) (utf8 c))) s)"

text \<open>\<open>re.sub\<close> with a replacement function that reads and writes the object.\<close>

fun re_sub_st :: "(ustring list \<Rightarrow> 's \<Rightarrow> ustring \<times> 's) \<Rightarrow> tok list \<Rightarrow> 's \<Rightarrow> ustring \<times> 's" where
  "re_sub_st repl [] c = ([], c)"
| "re_sub_st repl (Lit x # ts) c =
     (case re_sub_st repl ts c of (out, c') \<Rightarrow> (x # out, c'))"
| "re_sub_st repl (Hit ps # ts) c =
     (case repl ps c of (r, c1) \<Rightarrow>
        (case re_sub_st repl ts c1 of (out, c2) \<Rightarrow> (r @ out, c2)))"

text \<open>\<open>r'\[\[([^\]]+)\]\]'\<close>; group 1 is piece 2.\<close>

definition link_re :: "item list" where
  "link_re = lit ''[['' @ [Ch (\<lambda>x. x \<noteq> 93) Plus] @ lit '']]''"

text \<open>The two results of \<open>replace_page_link\<close>.\<close>

definition page_link :: "ustring \<Rightarrow> ustring \<Rightarrow> ustring" where
  "page_link page_name notion_filename =
     u ''['' @ page_name @ u '']('' @ quote [] notion_filename @ u '')''"

definition anchor_link :: "ustring \<Rightarrow> ustring" where
  "anchor_link page_name = u ''['' @ page_name @ u ''](#'' @ page_name @ u '')''"

definition replace_page_link :: "ustring list \<Rightarrow> converter \<Rightarrow> ustring \<times> converter" where
  "replace_page_link ps c =
     (let page_name = ps ! 2 in
      case map_of (page_mapping c) page_name of
        Some (notion_filename, _) \<Rightarrow> (page_link page_name notion_filename, c)
      | None \<Rightarrow> (anchor_link page_name, log (Link_missing page_name) c))"

text \<open>\<open>r'!\[([^\]]*)\]\(([^)]+)\)'\<close>; group 1 is piece 2, group 2 is piece 5.\<close>

definition image_re :: "item list" where
  "image_re = lit ''!['' @ [Ch (\<lambda>x. x \<noteq> 93) Star] @ lit '']('' @ [Ch (\<lambda>x. x \<noteq> 41) Plus]
     @ lit '')''"

definition basename :: "ustring \<Rightarrow> ustring" where
  "basename path = rev (takeWhile (\<lambda>x. x \<noteq> 47) (rev path))"

definition replace_image_link :: "ustring list \<Rightarrow> ustring" where
  "replace_image_link ps =
     (let alt_text = ps ! 2; image_path = ps ! 5 in
      if prefix (u ''../assets/'') image_path \<or> sublist (u ''assets/'') image_path
      then u ''!['' @ alt_text @ u '']('' @ quote [] (basename image_path) @ u '')''
      else concat ps)"

definition convert_image_links :: "ustring \<Rightarrow> ustring" where
  "convert_image_links content = re_sub image_re replace_image_link content"

definition link_pass :: "ustring \<Rightarrow> converter \<Rightarrow> ustring \<times> converter" where
  "link_pass content c = re_sub_st replace_page_link (re_scan link_re None 0 content) c"

definition convert_links :: "ustring \<Rightarrow> converter \<Rightarrow> ustring \<times> converter" where
  "convert_links content c =
     (case link_pass content c of (content', c') \<Rightarrow> (convert_image_links content', c'))"

text \<open>
  \<open>convert_logseq_syntax\<close>: the four task markers
  \<open>r'^(\s*)-\s+DONE\s+'\<close> (and \<open>TODO\<close>, \<open>LATER\<close>, \<open>NOW\<close>), the property line
  \<open>r'^([a-zA-Z-]+)::\s*(.*)$'\<close>, the block reference \<open>r'\(\(\([a-f0-9-]+\)\)\)'\<close> and
  the query \<open>r'\{\{[^}]+\}\}'\<close>, in this order. The two fixed replacement texts hold
  CJK characters, written here as code points.
\<close>

definition task_re :: "string \<Rightarrow> item list" where
  "task_re keyword =
     [Bol, Ch isspace Star] @ lit ''-'' @ [Ch isspace Plus] @ lit keyword @ [Ch isspace Plus]"

definition task_sub :: "string \<Rightarrow> string \<Rightarrow> ustring \<Rightarrow> ustring" where
  "task_sub keyword box content = re_sub (task_re keyword) (\<lambda>ps. ps ! 1 @ u box) content"

definition name_char :: "nat \<Rightarrow> bool" where
  "name_char x = ((97 \<le> x \<and> x \<le> 122) \<or> (65 \<le> x \<and> x \<le> 90) \<or> x = 45)"

definition property_re :: "item list" where
  "property_re =
     [Bol, Ch name_char Plus] @ lit ''::'' @ [Ch isspace Star, Ch (\<lambda>x. x \<noteq> 10) Star, Eol]"

definition hex_char :: "nat \<Rightarrow> bool" where
  "hex_char x = ((97 \<le> x \<and> x \<le> 102) \<or> (48 \<le> x \<and> x \<le> 57) \<or> x = 45)"

definition block_re :: "item list" where
  "block_re = lit ''((('' @ [Ch hex_char Plus] @ lit '')))''"

definition block_placeholder :: ustring where
  "block_placeholder = u ''> ['' @ [24341, 29992, 22359] @ u '']''"

definition query_re :: "item list" where
  "query_re = lit ''{{'' @ [Ch (\<lambda>x. x \<noteq> 125) Plus] @ lit ''}}''"

definition query_placeholder :: ustring where
  "query_placeholder = u ''<!-- LogSeq'' @ [26597, 35810, 24050, 31227, 38500] @ u '' -->''"

definition convert_logseq_syntax :: "ustring \<Rightarrow> ustring" where
  "convert_logseq_syntax content =
     (let content = task_sub ''DONE'' ''- [x] '' content;
          content = task_sub ''TODO'' ''- [ ] '' content;
          content = task_sub ''LATER'' ''- [ ] '' content;
          content = task_sub ''NOW'' ''- [ ] '' content;
          content = re_sub property_re (\<lambda>ps. u ''**'' @ ps ! 1 @ u ''**: '' @ ps ! 5) content;
          content = re_sub block_re (\<lambda>_. block_placeholder) content;
          content = re_sub query_re (\<lambda>_. query_placeholder) content
      in content)"

text \<open>The two conversions that \<open>convert_file\<close> applies to the text it has read.\<close>

definition transform :: "ustring \<Rightarrow> converter \<Rightarrow> ustring \<times> converter" where
  "transform content c =
     (case convert_links content c of (content', c') \<Rightarrow> (convert_logseq_syntax content', c'))"

section \<open>The plain converter: the run\<close>

text \<open>
  A source file as the converters see it: whether \<open>journals\<close> is one of the parts of its
  path, its stem, and the text that reading it returns (\<open>None\<close> when \<open>open\<close> or \<open>read\<close>
  raises).
\<close>

record source_file =
  in_journals :: bool
  stem :: ustring
  text_of :: "ustring option"

text \<open>
  \<open>with open(target, 'w') as f: f.write(content)\<close> on a directory of files: when the
  open raises, the directory is as before; once the file is open it holds what the
  write put there, all of \<open>content\<close> or what a write that raises has left. The result
  tells whether the statement completed.
\<close>

definition open_and_write ::
  "env \<Rightarrow> ustring \<Rightarrow> ustring \<Rightarrow> (ustring \<times> ustring) list \<Rightarrow> bool \<times> (ustring \<times> ustring) list" where
  "open_and_write e target content files =
     (if \<not> open_ok e target then (False, files)
      else (case write_cut e target content of
              None \<Rightarrow> (True, AList.update target content files)
            | Some left \<Rightarrow> (False, AList.update target left files)))"

text \<open>
  \<open>convert_file\<close>: the whole body is one \<open>try\<close>; an exception while reading or while
  creating and writing the target is logged and swallowed. The warnings that
  \<open>convert_links\<close> logged before a failed write stay in the log, and so does what a
  failed write left in the target.
\<close>

definition convert_file :: "env \<Rightarrow> source_file \<Rightarrow> ustring \<Rightarrow> converter \<Rightarrow> converter" where
  "convert_file e f target c =
     (case text_of f of
        None \<Rightarrow> log (File_failed (stem f)) c
      | Some content \<Rightarrow>
          (case transform content c of (content', c') \<Rightarrow>
             (case open_and_write e target content' (out_files c') of (written, files) \<Rightarrow>
                log (if written then File_converted (stem f) target else File_failed (stem f))
                  (c'\<lparr>out_files := files\<rparr>))))"

definition convert_page :: "env \<Rightarrow> source_file \<Rightarrow> converter \<Rightarrow> converter" where
  "convert_page e f c =
     (case map_of (page_mapping c) (stem f) of
        None \<Rightarrow> c
      | Some (notion_filename, _) \<Rightarrow> convert_file e f notion_filename c)"

definition convert_all_pages :: "env \<Rightarrow> source_file list \<Rightarrow> source_file list \<Rightarrow> converter \<Rightarrow> converter" where
  "convert_all_pages e pages journals c =
     fold (convert_page e) journals (fold (convert_page e) pages (log Content_started c))"

definition create_page_hierarchy :: "converter \<Rightarrow> converter" where
  "create_page_hierarchy c =
     fold (\<lambda>entry. log (Page_prepared (fst entry))) (page_mapping c) (log Hierarchy_started c)"

text \<open>
  \<open>copy_and_convert_assets\<close> has no \<open>try\<close>: when the \<open>assets\<close> directory of the output
  cannot be created, or one asset cannot be copied, the exception ends the run. The
  copies go to the \<open>assets\<close> directory of the output, which holds no page file.
\<close>

definition copy_asset :: "env \<Rightarrow> ustring \<times> ustring \<Rightarrow> converter \<Rightarrow> py_error + converter" where
  "copy_asset e asset_file c =
     (case asset_file of (path, name) \<Rightarrow>
        if copy_ok e path
        then Inr (log (Asset_copied name)
                    (c\<lparr>asset_mapping := AList.update path name (asset_mapping c)\<rparr>))
        else Inl OSError)"

definition copy_and_convert_assets :: "env \<Rightarrow> converter \<Rightarrow> py_error + converter" where
  "copy_and_convert_assets e c =
     (case asset_files e of
        None \<Rightarrow> Inr (log Assets_missing (log Assets_started c))
      | Some files \<Rightarrow>
          if assets_dir_ok e then for_each (copy_asset e) files (log Assets_started c)
          else Inl OSError)"

text \<open>\<open>generate_conversion_report\<close> has no \<open>try\<close>: a report that cannot be written ends
  the run.\<close>

definition generate_conversion_report :: "env \<Rightarrow> converter \<Rightarrow> py_error + converter" where
  "generate_conversion_report e c =
     (if report_ok e
      then Inr (log Report_written (c\<lparr>report_total_pages := Some (length (page_mapping c))\<rparr>))
      else Inl OSError)"

text \<open>\<open>create_zip_package\<close>: the archive is written inside a \<open>try\<close>, so a failure is
  logged and the run goes on.\<close>

definition create_zip_package :: "env \<Rightarrow> converter \<Rightarrow> converter" where
  "create_zip_package e c =
     (if zip_ok e then log Zip_size (log Zip_written (log Zip_started c))
      else log Zip_failed (log Zip_started c))"

text \<open>
  \<open>convert\<close>: scan, hierarchy, assets, page contents, report, archive, and the closing
  line with \<open>len(self.page_mapping)\<close>. The banner lines and the lines that name the
  directories are left out. An exception is logged and raised again.
\<close>

definition convert :: "env \<Rightarrow> source_file list \<Rightarrow> source_file list \<Rightarrow> converter \<Rightarrow> py_error + converter" where
  "convert e pages journals c =
     (case scan_pages e (map stem pages) (map stem journals) c of
        Inl err \<Rightarrow> Inl err
      | Inr c1 \<Rightarrow>
          (case copy_and_convert_assets e (create_page_hierarchy c1) of
             Inl err \<Rightarrow> Inl err
           | Inr c2 \<Rightarrow>
               (case generate_conversion_report e (convert_all_pages e pages journals c2) of
                  Inl err \<Rightarrow> Inl err
                | Inr c3 \<Rightarrow>
                    (let c4 = create_zip_package e c3
                     in Inr (log (Pages_total (length (page_mapping c4))) c4)))))"

section \<open>The tabular converter\<close>

text \<open>
  \<open>LogSeqToTeamTemplateConverter\<close>. \<open>uuid_calls\<close> counts the draws of \<open>uuid4\<close> so far
  (\<open>__init__\<close> draws two when \<open>with_uuid\<close> is set), \<open>t_out_files\<close> is the database
  directory. A row of the table keeps the four columns that vary; the other six are
  constants of the source.
\<close>

datatype page_type = Journal | Article

record entry =
  entry_name :: ustring
  entry_start_date :: ustring
  entry_page_type :: page_type
  entry_summary :: ustring

record team =
  with_uuid :: bool
  uuid_calls :: nat
  database_entries :: "entry list"
  t_page_mapping :: "(ustring \<times> ustring \<times> ustring) list"
  t_conversion_log :: "log_entry list"
  t_out_files :: "(ustring \<times> ustring) list"

definition t_init :: "bool \<Rightarrow> team" where
  "t_init flag = \<lparr>with_uuid = flag, uuid_calls = (if flag then 2 else 0), database_entries = [],
                   t_page_mapping = [], t_conversion_log = [], t_out_files = []\<rparr>"

definition t_log :: "log_entry \<Rightarrow> team \<Rightarrow> team" where
  "t_log m t = t\<lparr>t_conversion_log := t_conversion_log t @ [m]\<rparr>"

definition t_create_notion_filename :: "team \<Rightarrow> ustring \<Rightarrow> ustring \<Rightarrow> ustring" where
  "t_create_notion_filename t page_name page_uuid =
     (let clean_name = sanitize_filename page_name in
      if with_uuid t then clean_name @ u '' '' @ page_uuid @ u ''.md''
      else clean_name @ u ''.md'')"

text \<open>\<open>r'\d{4}\<close>U+5E74\<open>\d{2}\<close>U+6708\<open>\d{2}\<close>U+65E5\<open>'\<close>; its three groups are pieces 0, 2
  and 4.\<close>

definition cn_date_re :: "env \<Rightarrow> item list" where
  "cn_date_re e =
     [Ch (isdecimal e) (Exactly 4), Ch (\<lambda>x. x = 24180) Once, Ch (isdecimal e) (Exactly 2),
      Ch (\<lambda>x. x = 26376) Once, Ch (isdecimal e) (Exactly 2), Ch (\<lambda>x. x = 26085) Once]"

definition determine_page_type :: "env \<Rightarrow> source_file \<Rightarrow> ustring \<Rightarrow> page_type" where
  "determine_page_type e f page_name =
     (if in_journals f then Journal
      else if re_match (cn_date_re e) page_name \<or> re_match (date_re e) page_name then Journal
      else Article)"

definition convert_date_format :: "env \<Rightarrow> ustring \<Rightarrow> py_error + ustring \<times> ustring" where
  "convert_date_format e date_str =
     (if re_match (date_re e) date_str then
        (case split_on 95 date_str of
           [year, month, day] \<Rightarrow>
             Inr (year @ [24180] @ month @ [26376] @ day @ [26085],
                  month @ u ''/'' @ day @ u ''/'' @ year)
         | _ \<Rightarrow> Inl ValueError)
      else (case rx (cn_date_re e) None date_str of
              Some ps \<Rightarrow> Inr (date_str, ps ! 2 @ u ''/'' @ ps ! 4 @ u ''/'' @ ps ! 0)
            | None \<Rightarrow> Inr (date_str, [])))"

text \<open>
  \<open>extract_summary\<close> with \<open>max_length=150\<close>: seven substitutions
  (\<open>r'#+ '\<close>, \<open>r'\*\*(.*?)\*\*'\<close>, \<open>r'\*(.*?)\*'\<close>, \<open>r'\[(.*?)\]\(.*?\)'\<close>,
  \<open>r'!\[.*?\]\(.*?\)'\<close>, \<open>r'```.*?```'\<close> under \<open>re.DOTALL\<close>, \<open>r'`.*?`'\<close>), then
  \<open>' '.join(content.split())\<close>, the cut at 150 characters with \<open>...\<close> appended, and
  \<open>strip()\<close>.
\<close>

definition dot :: "nat \<Rightarrow> bool" where
  "dot x = (x \<noteq> 10)"

fun split_ws :: "ustring \<Rightarrow> ustring list" where
  "split_ws [] = []"
| "split_ws (x # xs) =
     (if isspace x then split_ws xs
      else (case xs of
              [] \<Rightarrow> [[x]]
            | y # _ \<Rightarrow>
                if isspace y then [x] # split_ws xs
                else (case split_ws xs of
                        [] \<Rightarrow> [[x]]
                      | w # ws \<Rightarrow> (x # w) # ws)))"

fun join :: "ustring \<Rightarrow> ustring list \<Rightarrow> ustring" where
  "join sep [] = []"
| "join sep [w] = w"
| "join sep (w # ws) = w @ sep @ join sep ws"

definition extract_summary :: "ustring \<Rightarrow> ustring" where
  "extract_summary content =
     (let content = re_sub [Ch (\<lambda>x. x = 35) Plus, Ch (\<lambda>x. x = 32) Once] (\<lambda>_. []) content;
          content = re_sub (lit ''**'' @ [Ch dot LazyStar] @ lit ''**'') (\<lambda>ps. ps ! 2) content;
          content = re_sub (lit ''*'' @ [Ch dot LazyStar] @ lit ''*'') (\<lambda>ps. ps ! 1) content;
          content = re_sub (lit ''['' @ [Ch dot LazyStar] @ lit '']('' @ [Ch dot LazyStar]
                      @ lit '')'') (\<lambda>ps. ps ! 1) content;
          content = re_sub (lit ''!['' @ [Ch dot LazyStar] @ lit '']('' @ [Ch dot LazyStar]
                      @ lit '')'') (\<lambda>_. []) content;
          content = re_sub (lit ''```'' @ [Ch (\<lambda>_. True) LazyStar] @ lit ''```'') (\<lambda>_. [])
                      content;
          content = re_sub (lit ''`'' @ [Ch dot LazyStar] @ lit ''`'') (\<lambda>_. []) content;
          content = join (u '' '') (split_ws content);
          content = (if length content > 150 then take 150 content @ u ''...'' else content)
      in strip isspace content)"

text \<open>
  The tabular \<open>convert_links\<close>: the same pattern; a known name becomes a link to
  \<open>quote(notion_filename[:-3])\<close> (with \<open>/\<close> safe), an unknown one is left as the bare
  bracketed name, and nothing is logged.
\<close>

definition t_replace_page_link :: "team \<Rightarrow> ustring list \<Rightarrow> ustring" where
  "t_replace_page_link t ps =
     (let page_name = ps ! 2 in
      case map_of (t_page_mapping t) page_name of
        Some (notion_filename, page_uuid) \<Rightarrow>
          (let encoded_filename = quote ''/'' (take (length notion_filename - 3) notion_filename) in
           if with_uuid t \<and> page_uuid \<noteq> []
           then u ''['' @ page_name @ u '']('' @ encoded_filename @ u ''%20'' @ page_uuid
                  @ u ''.md)''
           else u ''['' @ page_name @ u '']('' @ encoded_filename @ u ''.md)'')
      | None \<Rightarrow> u ''['' @ page_name @ u '']'')"

definition t_convert_links :: "team \<Rightarrow> ustring \<Rightarrow> ustring" where
  "t_convert_links t content = re_sub link_re (t_replace_page_link t) content"

text \<open>The head of a page file, as \<open>create_notion_page\<close> builds it line by line; the
  labels are CJK text, written as code points.\<close>

definition page_type_text :: "page_type \<Rightarrow> ustring" where
  "page_type_text ty = (case ty of Journal \<Rightarrow> [26085, 24535] | Article \<Rightarrow> [25991, 31456])"

definition page_header :: "ustring \<Rightarrow> page_type \<Rightarrow> ustring \<Rightarrow> ustring \<Rightarrow> ustring" where
  "page_header page_name ty start_date summary =
     u ''# '' @ page_name @ [10, 10]
     @ u ''Created by: LogSeq'' @ [23548, 20837, 10]
     @ (if start_date \<noteq> [] then [24320, 22987, 26085, 26399] @ u '': '' @ start_date @ [10]
        else [])
     @ [29366, 24577] @ u '': Not started'' @ [10]
     @ [39029, 38754, 31867, 22411] @ u '': '' @ page_type_text ty @ [10]
     @ (if summary \<noteq> [] then [25688, 35201] @ u '': '' @ summary @ [10] else [])
     @ [10] @ u ''---'' @ [10, 10]"

definition create_notion_page ::
  "env \<Rightarrow> ustring \<Rightarrow> ustring \<Rightarrow> page_type \<Rightarrow> ustring \<Rightarrow> ustring \<Rightarrow> ustring \<Rightarrow> team \<Rightarrow> team" where
  "create_notion_page e filename page_name ty start_date content summary t =
     (let notion_content = page_header page_name ty start_date summary @ t_convert_links t content
      in case open_and_write e filename notion_content (t_out_files t) of (written, files) \<Rightarrow>
           (if written then t\<lparr>t_out_files := files\<rparr>
            else t_log (Write_failed filename) (t\<lparr>t_out_files := files\<rparr>)))"

text \<open>
  \<open>process_page_file\<close>. The identifier is drawn first; the title of a journal-type page
  comes from \<open>convert_date_format\<close>, whose \<open>ValueError\<close> nothing in this method catches;
  an unreadable file is logged and skipped; then the page is entered in the registry,
  its row is appended and its file is written, in this order.
\<close>

definition page_title :: "env \<Rightarrow> source_file \<Rightarrow> py_error + page_type \<times> ustring \<times> ustring" where
  "page_title e f =
     (let page_name = stem f; ty = determine_page_type e f page_name in
      if ty = Journal then
        (case convert_date_format e page_name of
           Inl err \<Rightarrow> Inl err
         | Inr (display_name, start_date) \<Rightarrow> Inr (ty, display_name, start_date))
      else Inr (ty, page_name, []))"

definition process_page_file :: "env \<Rightarrow> source_file \<Rightarrow> team \<Rightarrow> py_error + team" where
  "process_page_file e f t =
     (let page_name = stem f in
      if page_name = u ''contents'' then Inr (t_log Contents_skipped t)
      else
        (let page_uuid = (if with_uuid t then uuid4_hex e (uuid_calls t) else []);
             t = (if with_uuid t then t\<lparr>uuid_calls := Suc (uuid_calls t)\<rparr> else t)
         in case page_title e f of
              Inl err \<Rightarrow> Inl err
            | Inr (ty, display_name, start_date) \<Rightarrow>
                (case text_of f of
                   None \<Rightarrow> Inr (t_log (Read_failed page_name) t)
                 | Some content \<Rightarrow>
                     (let notion_filename = t_create_notion_filename t display_name page_uuid;
                          t = t\<lparr>t_page_mapping :=
                                   AList.update page_name (notion_filename, page_uuid)
                                     (t_page_mapping t)\<rparr>;
                          summary = extract_summary content;
                          t = t\<lparr>database_entries := database_entries t
                                   @ [\<lparr>entry_name = display_name, entry_start_date = start_date,
                                        entry_page_type = ty, entry_summary = summary\<rparr>]\<rparr>;
                          t = create_notion_page e notion_filename display_name ty start_date
                                content summary t
                      in Inr (t_log (Page_converted page_name display_name) t)))))"

definition scan_and_convert_pages :: "env \<Rightarrow> source_file list \<Rightarrow> source_file list \<Rightarrow> team \<Rightarrow> py_error + team" where
  "scan_and_convert_pages e pages journals t =
     (case for_each (process_page_file e) pages (t_log Scan_started t) of
        Inl err \<Rightarrow> Inl err
      | Inr t' \<Rightarrow> for_each (process_page_file e) journals t')"

section \<open>Notions used in the properties\<close>

text \<open>The names of the cross-references that a scan for \<open>link_re\<close> found, in order.\<close>

fun link_names :: "tok list \<Rightarrow> ustring list" where
  "link_names [] = []"
| "link_names (Lit x # ts) = link_names ts"
| "link_names (Hit ps # ts) = ps ! 2 # link_names ts"

text \<open>
  A text is settled when it holds none of the strings that a pattern of the Content
  Transformer needs: no \<open>[[\<close>, no \<open>assets/\<close> (without which an image reference is put
  back as it was), none of the four task keywords, no \<open>::\<close>, no \<open>(((\<close> and no \<open>{{\<close>.
\<close>

definition settled :: "ustring \<Rightarrow> bool" where
  "settled s =
     (\<not> sublist (u ''[['') s \<and> \<not> sublist (u ''assets/'') s \<and> \<not> sublist (u ''DONE'') s
      \<and> \<not> sublist (u ''TODO'') s \<and> \<not> sublist (u ''LATER'') s \<and> \<not> sublist (u ''NOW'') s
      \<and> \<not> sublist (u ''::'') s \<and> \<not> sublist (u ''((('') s \<and> \<not> sublist (u ''{{'') s)"


text \<open>A page whose only reference names no document, a page with plain text, and an
  environment in which everything can be written but the page file \<open>A.md\<close>, which cannot
  be opened.\<close>

definition ghost_page :: source_file where
  "ghost_page = \<lparr>in_journals = False, stem = u ''A'', text_of = Some (u ''[[Ghost]]'')\<rparr>"

definition page_a :: source_file where
  "page_a = \<lparr>in_journals = False, stem = u ''A'', text_of = Some (u ''x'')\<rparr>"

definition env1 :: env where
  "env1 = env0\<lparr>open_ok := (\<lambda>target. target \<noteq> u ''A.md'')\<rparr>"

text \<open>A journal whose body holds bold text, a reference to the journal itself and a
  reference that names no document.\<close>

definition journal_day :: source_file where
  "journal_day = \<lparr>in_journals = True, stem = u ''2025_01_01'',
                   text_of = Some (u ''**Hi** [[2025_01_01]] [[Ghost]]'')\<rparr>"

text \<open>The copy of the assets raises nothing: there is no \<open>assets\<close> directory, or its
  counterpart in the output can be created and every asset can be copied.\<close>

definition assets_copyable :: "env \<Rightarrow> bool" where
  "assets_copyable e =
     (case asset_files e of
        None \<Rightarrow> True
      | Some files \<Rightarrow> assets_dir_ok e \<and> list_all (\<lambda>a. copy_ok e (fst a)) files)"

text \<open>Two pages, the first of which refers to the second.\<close>

definition page_fwd :: source_file where
  "page_fwd = \<lparr>in_journals = False, stem = u ''A'', text_of = Some (u ''[[B]]'')\<rparr>"

definition page_b :: source_file where
  "page_b = \<lparr>in_journals = False, stem = u ''B'', text_of = Some (u ''x'')\<rparr>"

text \<open>
  A page file is rewritten from a document of \<open>fs\<close> against the registry of \<open>c0\<close> when
  its name is the registry's file name for that document and its content is the
  document's text after the Content Transformer has run on it with that registry.
\<close>

definition rewritten_from ::
  "source_file set \<Rightarrow> converter \<Rightarrow> ustring \<times> ustring \<Rightarrow> bool" where
  "rewritten_from fs c0 file =
     (\<exists>f \<in> fs. \<exists>content pid. text_of f = Some content
        \<and> map_of (page_mapping c0) (stem f) = Some (fst file, pid)
        \<and> snd file = fst (transform content c0))"

section \<open>Properties of the registry\<close>

lemma generate_uuid_log [simp]: "generate_uuid (log m c) = generate_uuid c"
  by (simp add: log_def)

lemma page_mapping_log [simp]: "page_mapping (log m c) = page_mapping c"
  by (simp add: log_def)

lemma filter_key_distinct:
  "distinct (map fst al) \<Longrightarrow> map_of al k = Some v \<Longrightarrow>
   filter (\<lambda>entry. fst entry = k) al = [(k, v)]"
proof (induction al)
  case Nil
  then show ?case by simp
next
  case (Cons a al)
  obtain k' v' where a: "a = (k', v')" by (cases a)
  show ?case
  proof (cases "k' = k")
    case True
    with Cons.prems a have "v' = v" by simp
    moreover from Cons.prems a True have "k \<notin> fst ` set al" by simp
    then have "filter (\<lambda>entry. fst entry = k) al = []"
      by (auto simp: filter_empty_conv)
    ultimately show ?thesis using a True by simp
  next
    case False
    with Cons a show ?thesis by simp
  qed
qed

text \<open>With identifier generation off, the loop over the pages never raises, and the
  keys of the dictionary stay distinct.\<close>

lemma for_each_map_page_off:
  "\<not> generate_uuid c \<Longrightarrow> distinct (map fst (page_mapping c)) \<Longrightarrow>
   \<exists>c'. for_each map_page pages c = Inr c' \<and> \<not> generate_uuid c'
     \<and> distinct (map fst (page_mapping c'))"
proof (induction pages arbitrary: c)
  case Nil
  then show ?case by simp
next
  case (Cons p pages)
  let ?c1 = "log (Page_mapped p (create_notion_filename c p []))
               (c\<lparr>page_mapping :=
                    AList.update p (create_notion_filename c p [], []) (page_mapping c)\<rparr>)"
  have step: "map_page p c = Inr ?c1"
    using Cons.prems(1) by (simp add: map_page_def page_uuid_of_def Let_def)
  have "\<not> generate_uuid ?c1" "distinct (map fst (page_mapping ?c1))"
    using Cons.prems by (simp_all add: distinct_update)
  from Cons.IH[OF this] step show ?case by simp
qed

text \<open>The loop over the journals, when no stem raises in \<open>journal_page_name\<close>: every
  journal key ends up bound to the journal's file name, whatever was bound before, and
  every other key keeps its entry.\<close>

lemma for_each_map_journal_off:
  "\<not> generate_uuid c \<Longrightarrow> distinct (map fst (page_mapping c)) \<Longrightarrow>
   \<forall>j \<in> set journals. \<not> isl (journal_page_name e j) \<Longrightarrow>
   \<exists>c'. for_each (map_journal e) journals c = Inr c' \<and> \<not> generate_uuid c'
     \<and> distinct (map fst (page_mapping c'))
     \<and> (\<forall>k. map_of (page_mapping c') k =
           (if k \<in> set journals
            then Some (sanitize_filename (projr (journal_page_name e k)) @ u ''.md'', [])
            else map_of (page_mapping c) k))"
proof (induction journals arbitrary: c)
  case Nil
  then show ?case by simp
next
  case (Cons j journals)
  from Cons.prems(3) obtain title where title: "journal_page_name e j = Inr title"
    by (cases "journal_page_name e j") auto
  let ?fn = "sanitize_filename title @ u ''.md''"
  let ?c1 = "log (Journal_mapped j ?fn)
               (c\<lparr>page_mapping := AList.update j (?fn, []) (page_mapping c)\<rparr>)"
  have step: "map_journal e j c = Inr ?c1"
    using Cons.prems(1) title
    by (simp add: map_journal_def page_uuid_of_def create_notion_filename_def Let_def)
  have c1: "\<not> generate_uuid ?c1" "distinct (map fst (page_mapping ?c1))"
    using Cons.prems by (simp_all add: distinct_update)
  have rest: "\<forall>j \<in> set journals. \<not> isl (journal_page_name e j)"
    using Cons.prems(3) by simp
  from Cons.IH[OF c1 rest] obtain c' where c':
    "for_each (map_journal e) journals ?c1 = Inr c'" "\<not> generate_uuid c'"
    "distinct (map fst (page_mapping c'))"
    and look: "\<And>k. map_of (page_mapping c') k =
        (if k \<in> set journals
         then Some (sanitize_filename (projr (journal_page_name e k)) @ u ''.md'', [])
         else map_of (page_mapping ?c1) k)"
    by blast
  have "map_of (page_mapping c') k =
        (if k \<in> set (j # journals)
         then Some (sanitize_filename (projr (journal_page_name e k)) @ u ''.md'', [])
         else map_of (page_mapping c) k)" for k
    using title by (simp add: look update_conv')
  with c' step show ?case by simp
qed

text \<open>
  C2, identifier generation enabled. With \<open>generate_uuid=True\<close>, \<open>scan_pages\<close> does not
  complete: at the first page it calls \<open>self.generate_uuid()\<close>, which is the boolean
  attribute, and the \<open>TypeError\<close> leaves the scan, so no file name with a token is ever
  assigned.
\<close>

theorem C2_enabled_scan_raises:
  "scan_pages e (page_name # pages) journals (init True) = Inl TypeError"
  by (simp add: scan_pages_def map_page_def page_uuid_of_def call_generate_uuid_def init_def)

text \<open>
  C3, one key in both collections, as the claim states it, fails: a page and a journal
  both named \<open>2025_01_01\<close> leave one registry entry, the journal's; the page's file name
  \<open>2025_01_01.md\<close> is overwritten.
\<close>

theorem C3_shared_key_counterexample:
  "map_sum id page_mapping
     (scan_pages env0 [u ''2025_01_01''] [u ''2025_01_01''] (init False))
   = Inr [(u ''2025_01_01'',
           u ''2025'' @ [24180] @ u ''01'' @ [26376] @ u ''01'' @ [26085] @ u ''.md'', [])]"
  by (simp add: scan_pages_def map_page_def map_journal_def page_uuid_of_def init_def Let_def
      log_def journal_page_name_def re_match_def date_re_def lit_def isdecimal_def
      prev_after_def create_notion_filename_def sanitize_filename_def re_sub_def strip_def
      one_of_def hostile_def u_def)

text \<open>
  C3 as amended: the registry is one dictionary keyed by the logical key alone. When no
  journal stem raises, the scan completes, and a key that names both a page and a
  journal has exactly one entry afterwards, the journal's (the last write wins).
\<close>

theorem C3_shared_key_last_write_wins:
  assumes "\<forall>j \<in> set journals. \<not> isl (journal_page_name e j)"
    and "k \<in> set pages" and "k \<in> set journals"
  shows "\<exists>c title. scan_pages e pages journals (init False) = Inr c
           \<and> journal_page_name e k = Inr title
           \<and> filter (\<lambda>entry. fst entry = k) (page_mapping c)
               = [(k, sanitize_filename title @ u ''.md'', [])]"
proof -
  have "\<not> generate_uuid (log Scan_started (init False))"
    "distinct (map fst (page_mapping (log Scan_started (init False))))"
    by (simp_all add: init_def)
  from for_each_map_page_off[OF this] obtain c1 where c1:
    "for_each map_page pages (log Scan_started (init False)) = Inr c1"
    "\<not> generate_uuid c1" "distinct (map fst (page_mapping c1))"
    by blast
  from for_each_map_journal_off[OF c1(2,3) assms(1)] obtain c where c:
    "for_each (map_journal e) journals c1 = Inr c" "distinct (map fst (page_mapping c))"
    and look: "\<And>k. map_of (page_mapping c) k =
        (if k \<in> set journals
         then Some (sanitize_filename (projr (journal_page_name e k)) @ u ''.md'', [])
         else map_of (page_mapping c1) k)"
    by blast
  from assms(1,3) obtain title where title: "journal_page_name e k = Inr title"
    by (cases "journal_page_name e k") auto
  have "map_of (page_mapping c) k = Some (sanitize_filename title @ u ''.md'', [])"
    using look[of k] assms(3) title by simp
  from filter_key_distinct[OF c(2) this] c(1) c1(1) title show ?thesis
    by (simp add: scan_pages_def)
qed

theorem C3_shared_key_witness:
  "\<exists>c title. scan_pages env0 [u ''2025_01_01''] [u ''2025_01_01''] (init False) = Inr c
           \<and> journal_page_name env0 (u ''2025_01_01'') = Inr title
           \<and> filter (\<lambda>entry. fst entry = u ''2025_01_01'') (page_mapping c)
               = [(u ''2025_01_01'', sanitize_filename title @ u ''.md'', [])]"
proof -
  have ok: "\<forall>j \<in> set [u ''2025_01_01'']. \<not> isl (journal_page_name env0 j)"
    by (simp add: journal_page_name_def re_match_def date_re_def lit_def isdecimal_def
        prev_after_def u_def)
  show ?thesis
    using C3_shared_key_last_write_wins[OF ok, of "u ''2025_01_01''" "[u ''2025_01_01'']"]
    by simp
qed

text \<open>
  C4, no error for any journal key. The journal \<open>2025_01_01_x.md\<close> starts with a date,
  so \<open>re.match\<close> accepts it; \<open>split('_')\<close> then gives four pieces and the unpacking into
  year, month and day raises \<open>ValueError\<close>, which ends the scan.
\<close>

theorem C4_journal_key_raises:
  "scan_pages e [] [u ''2025_01_01_x''] (init False) = Inl ValueError"
  by (simp add: scan_pages_def map_journal_def journal_page_name_def re_match_def date_re_def
      lit_def u_def isdecimal_def prev_after_def)

text \<open>
  C8, every resolved file name is free of a leading dot. The page file whose name is
  one space followed by \<open>.md\<close> has a single space as its stem, which
  \<open>sanitize_filename\<close> strips to the empty string, and its registry entry is the file
  name \<open>.md\<close>.
\<close>

theorem C8_leading_dot:
  "map_sum id page_mapping (scan_pages e [u '' ''] [] (init False))
   = Inr [(u '' '', u ''.md'', [])]"
  by (simp add: scan_pages_def map_page_def page_uuid_of_def init_def Let_def log_def
      create_notion_filename_def sanitize_filename_def re_sub_def strip_def one_of_def
      hostile_def u_def)

section \<open>What the registry guarantees\<close>

lemma re_scan_class:
  "re_scan [Ch c Once] prev 0 s = map (\<lambda>x. if c x then Hit [[x]] else Lit x) s"
  by (induction s arbitrary: prev) simp_all

lemma sanitize_filename_map:
  "sanitize_filename n = strip (one_of ''. '') (map (\<lambda>x. if hostile x then 95 else x) n)"
proof -
  have "concat (map (render (\<lambda>_. u ''_'')) (map (\<lambda>x. if hostile x then Hit [[x]] else Lit x) n))
      = map (\<lambda>x. if hostile x then 95 else x) n"
    by (induction n) (simp_all add: u_def)
  then show ?thesis by (simp add: sanitize_filename_def re_sub_def re_scan_class)
qed

lemma strip_subset: "set (strip cs s) \<subseteq> set s"
proof
  fix x
  assume "x \<in> set (strip cs s)"
  then have "x \<in> set (dropWhile cs (rev (dropWhile cs s)))" by (simp add: strip_def)
  then have "x \<in> set (rev (dropWhile cs s))" by (rule set_dropWhileD)
  then have "x \<in> set (dropWhile cs s)" by simp
  then show "x \<in> set s" by (rule set_dropWhileD)
qed

lemma strip_ends:
  assumes "strip cs s \<noteq> []"
  shows "\<not> cs (hd (strip cs s)) \<and> \<not> cs (last (strip cs s))"
proof -
  define t where "t = dropWhile cs s"
  define r where "r = dropWhile cs (rev t)"
  have s: "strip cs s = rev r" by (simp add: strip_def t_def r_def)
  with assms have r: "r \<noteq> []" by simp
  then have t: "t \<noteq> []" by (auto simp: r_def)
  have "\<not> cs (hd r)" using r unfolding r_def by (rule hd_dropWhile)
  then have l: "\<not> cs (last (strip cs s))" using r by (simp add: s last_rev)
  have "last r = last (rev t)"
    using r unfolding r_def by (metis append_is_Nil_conv last_appendR takeWhile_dropWhile_id)
  then have "hd (strip cs s) = hd t" using r t by (simp add: s hd_rev last_rev)
  moreover have "\<not> cs (hd t)" using t unfolding t_def by (rule hd_dropWhile)
  ultimately show ?thesis using l by simp
qed

text \<open>
  The sanitized name holds none of the nine replaced characters, and unless it is empty
  it neither starts nor ends with a dot or a space; then the same holds for the file
  name that the registry records when identifier generation is off, the sanitized name
  followed by \<open>.md\<close>.
\<close>

theorem sanitized_name_is_clean:
  "(\<forall>x \<in> set (sanitize_filename n). \<not> hostile x)
   \<and> (sanitize_filename n \<noteq> [] \<longrightarrow>
        hd (sanitize_filename n) \<notin> {46, 32} \<and> last (sanitize_filename n) \<notin> {46, 32}
        \<and> (\<forall>x \<in> set (create_notion_filename (init False) n pid). \<not> hostile x)
        \<and> hd (create_notion_filename (init False) n pid) \<notin> {46, 32}
        \<and> last (create_notion_filename (init False) n pid) \<notin> {46, 32})"
proof -
  let ?m = "map (\<lambda>x. if hostile x then 95 else x) n"
  have m: "\<forall>x \<in> set ?m. \<not> hostile x" by (auto simp: hostile_def)
  have a: "\<forall>x \<in> set (sanitize_filename n). \<not> hostile x"
    unfolding sanitize_filename_map using strip_subset[of "one_of ''. ''" ?m] m by blast
  have fn: "create_notion_filename (init False) n pid = sanitize_filename n @ u ''.md''"
    by (simp add: create_notion_filename_def init_def)
  have b: "hd (sanitize_filename n) \<notin> {46, 32} \<and> last (sanitize_filename n) \<notin> {46, 32}
        \<and> (\<forall>x \<in> set (create_notion_filename (init False) n pid). \<not> hostile x)
        \<and> hd (create_notion_filename (init False) n pid) \<notin> {46, 32}
        \<and> last (create_notion_filename (init False) n pid) \<notin> {46, 32}"
    if ne: "sanitize_filename n \<noteq> []"
  proof -
    from ne have "strip (one_of ''. '') ?m \<noteq> []" by (simp add: sanitize_filename_map)
    from strip_ends[OF this] have ends:
      "hd (sanitize_filename n) \<notin> {46, 32}" "last (sanitize_filename n) \<notin> {46, 32}"
      by (simp_all add: sanitize_filename_map one_of_def u_def)
    have "\<forall>x \<in> set (u ''.md''). \<not> hostile x" by (simp add: u_def hostile_def)
    with a have "\<forall>x \<in> set (create_notion_filename (init False) n pid). \<not> hostile x"
      by (auto simp: fn)
    moreover have "hd (create_notion_filename (init False) n pid) \<notin> {46, 32}"
      using ne ends(1) by (simp add: fn)
    moreover have "last (create_notion_filename (init False) n pid) \<notin> {46, 32}"
      by (simp add: fn u_def)
    ultimately show ?thesis using ends by simp
  qed
  from a b show ?thesis by blast
qed

theorem sanitized_name_witness:
  "sanitize_filename (u ''. a:b '') = u ''a_b''
   \<and> hd (create_notion_filename (init False) (u ''. a:b '') []) \<notin> {46, 32}
   \<and> last (create_notion_filename (init False) (u ''. a:b '') []) \<notin> {46, 32}"
proof -
  have v: "sanitize_filename (u ''. a:b '') = u ''a_b''"
    by (simp add: sanitize_filename_def re_sub_def u_def hostile_def strip_def one_of_def)
  have ne: "sanitize_filename (u ''. a:b '') \<noteq> []" unfolding v by (simp add: u_def)
  from sanitized_name_is_clean[of "u ''. a:b ''" "[]"] ne v show ?thesis by blast
qed

lemma split_on_plain: "sep \<notin> set s \<Longrightarrow> split_on sep s = [s]"
  by (induction s) auto

lemma split_on_append:
  "sep \<notin> set a \<Longrightarrow> split_on sep (a @ sep # rest) = a # split_on sep rest"
  by (induction a) auto

lemma isdecimal_not_underscore: "list_all (isdecimal e) s \<Longrightarrow> 95 \<notin> set s"
  by (auto simp: list_all_iff isdecimal_def)

text \<open>
  A journal key made of four, two and two decimal digits joined by underscores gets the
  title with the same year, month and day, each followed by its CJK unit character.
\<close>

theorem date_key_gives_date_title:
  assumes "length y = 4" and "length m = 2" and "length d = 2"
    and "list_all (isdecimal e) y" and "list_all (isdecimal e) m" and "list_all (isdecimal e) d"
  shows "journal_page_name e (y @ u ''_'' @ m @ u ''_'' @ d)
         = Inr (y @ [24180] @ m @ [26376] @ d @ [26085])"
proof -
  have us: "u ''_'' = [95]" by (simp add: u_def)
  have m: "re_match (date_re e) (y @ [95] @ m @ [95] @ d)"
    using assms by (simp add: re_match_def date_re_def lit_def prev_after_def)
  have "split_on 95 (y @ 95 # m @ 95 # d) = [y, m, d]"
    using assms(4-6)
    by (simp add: split_on_append split_on_plain isdecimal_not_underscore)
  with m show ?thesis by (simp add: journal_page_name_def us)
qed

theorem date_key_witness:
  "journal_page_name env0 (u ''2025'' @ u ''_'' @ u ''01'' @ u ''_'' @ u ''01'')
   = Inr (u ''2025'' @ [24180] @ u ''01'' @ [26376] @ u ''01'' @ [26085])"
  by (rule date_key_gives_date_title) (simp_all add: u_def isdecimal_def)

section \<open>Properties of the matcher\<close>

text \<open>A match consumes a prefix of the text, one piece per item, and a scan only
  reports matches that the matcher found at some position.\<close>

lemma first_some_SomeD: "first_some f ks = Some r \<Longrightarrow> \<exists>k \<in> set ks. f k = Some r"
  by (induction ks) (auto split: option.splits)

lemma counts_le: "k \<in> set (counts q c s) \<Longrightarrow> k \<le> length s"
proof (cases q)
  case Once
  assume "k \<in> set (counts q c s)"
  with Once show ?thesis by (cases s) (auto split: if_splits)
next
  case (Exactly m)
  assume "k \<in> set (counts q c s)"
  with Exactly show ?thesis by (auto split: if_splits)
next
  case Star
  assume "k \<in> set (counts q c s)"
  with Star have "k \<le> length (takeWhile c s)" by auto
  also have "\<dots> \<le> length s" by (rule length_takeWhile_le)
  finally show ?thesis .
next
  case Plus
  assume "k \<in> set (counts q c s)"
  with Plus have "k \<le> length (takeWhile c s)" by auto
  also have "\<dots> \<le> length s" by (rule length_takeWhile_le)
  finally show ?thesis .
next
  case LazyStar
  assume "k \<in> set (counts q c s)"
  with LazyStar have "k \<le> length (takeWhile c s)" by auto
  also have "\<dots> \<le> length s" by (rule length_takeWhile_le)
  finally show ?thesis .
qed

lemma rx_Ch_SomeD:
  assumes "rx (Ch c q # p) prev s = Some ps"
  shows "\<exists>k ps'. k \<in> set (counts q c s) \<and> ps = take k s # ps'
           \<and> rx p (prev_after prev (take k s)) (drop k s) = Some ps'"
proof -
  from assms obtain k where k: "k \<in> set (counts q c s)"
    and "map_option ((#) (take k s)) (rx p (prev_after prev (take k s)) (drop k s)) = Some ps"
    by (auto dest!: first_some_SomeD)
  then show ?thesis by auto
qed

lemma rx_anchor_SomeD:
  assumes "rx (i # p) prev s = Some ps" and "i = Bol \<or> i = Eol"
  shows "\<exists>ps'. ps = [] # ps' \<and> rx p prev s = Some ps'"
  using assms by (auto split: if_splits)

lemma rx_prefix: "rx p prev s = Some ps \<Longrightarrow> prefix (concat ps) s"
proof (induction p arbitrary: prev s ps)
  case Nil
  then show ?case by simp
next
  case (Cons i p)
  show ?case
  proof (cases i)
    case (Ch c q)
    with Cons.prems have "rx (Ch c q # p) prev s = Some ps" by (simp only:)
    from rx_Ch_SomeD[OF this] obtain k ps' where k: "ps = take k s # ps'"
      "rx p (prev_after prev (take k s)) (drop k s) = Some ps'"
      by blast
    from Cons.IH[OF k(2)] have "prefix (take k s @ concat ps') (take k s @ drop k s)"
      by (simp only: same_prefix_prefix)
    then have "prefix (take k s @ concat ps') s" by (simp only: append_take_drop_id)
    with k(1) show ?thesis by simp
  next
    case Bol
    with Cons.prems obtain ps' where "ps = [] # ps'" "rx p prev s = Some ps'"
      by (auto split: if_splits)
    with Cons.IH show ?thesis by auto
  next
    case Eol
    with Cons.prems obtain ps' where "ps = [] # ps'" "rx p prev s = Some ps'"
      by (auto split: if_splits)
    with Cons.IH show ?thesis by auto
  qed
qed

lemma rx_length: "rx p prev s = Some ps \<Longrightarrow> length ps = length p"
proof (induction p arbitrary: prev s ps)
  case Nil
  then show ?case by simp
next
  case (Cons i p)
  show ?case
  proof (cases i)
    case (Ch c q)
    with Cons.prems have "rx (Ch c q # p) prev s = Some ps" by (simp only:)
    from rx_Ch_SomeD[OF this] obtain k ps' where k: "ps = take k s # ps'"
      "rx p (prev_after prev (take k s)) (drop k s) = Some ps'"
      by blast
    with Cons.IH show ?thesis by auto
  next
    case Bol
    with Cons.prems obtain ps' where "ps = [] # ps'" "rx p prev s = Some ps'"
      by (auto split: if_splits)
    with Cons.IH show ?thesis by auto
  next
    case Eol
    with Cons.prems obtain ps' where "ps = [] # ps'" "rx p prev s = Some ps'"
      by (auto split: if_splits)
    with Cons.IH show ?thesis by auto
  qed
qed

text \<open>A pattern with an item for exactly one character never matches the empty
  string.\<close>

lemma rx_consumes:
  "Ch c Once \<in> set p \<Longrightarrow> rx p prev s = Some ps \<Longrightarrow> concat ps \<noteq> []"
proof (induction p arbitrary: prev s ps)
  case Nil
  then show ?case by simp
next
  case (Cons i p)
  show ?case
  proof (cases i)
    case (Ch c' q)
    with Cons.prems have "rx (Ch c' q # p) prev s = Some ps" by (simp only:)
    from rx_Ch_SomeD[OF this] obtain k ps' where k: "k \<in> set (counts q c' s)"
      "ps = take k s # ps'" "rx p (prev_after prev (take k s)) (drop k s) = Some ps'"
      by blast
    show ?thesis
    proof (cases "Ch c Once = i")
      case True
      with Ch k(1) have "k = 1 \<and> s \<noteq> []" by (cases s) (auto split: if_splits)
      with k(2) show ?thesis by simp
    next
      case False
      with Cons.prems(1) have "Ch c Once \<in> set p" by simp
      from Cons.IH[OF this k(3)] k(2) show ?thesis by simp
    qed
  next
    case Bol
    with Cons.prems obtain ps' where "ps = [] # ps'" "rx p prev s = Some ps'"
      "Ch c Once \<in> set p" by (auto split: if_splits)
    with Cons.IH show ?thesis by auto
  next
    case Eol
    with Cons.prems obtain ps' where "ps = [] # ps'" "rx p prev s = Some ps'"
      "Ch c Once \<in> set p" by (auto split: if_splits)
    with Cons.IH show ?thesis by auto
  qed
qed

lemma rx_append:
  "rx (p1 @ p2) prev s = Some ps \<Longrightarrow>
   \<exists>ps1 ps2 prev'. ps = ps1 @ ps2 \<and> length ps1 = length p1 \<and> prefix (concat ps1) s
      \<and> rx p2 prev' (drop (length (concat ps1)) s) = Some ps2"
proof (induction p1 arbitrary: prev s ps)
  case Nil
  then show ?case by (intro exI[of _ "[]"] exI[of _ ps] exI[of _ prev]) simp
next
  case (Cons i p1)
  have step: ?case
    if ps: "ps = piece # ps'" and piece: "prefix piece s"
      and rest: "rx (p1 @ p2) prev0 (drop (length piece) s) = Some ps'" for piece ps' prev0
  proof -
    from Cons.IH[OF rest] obtain ps1 ps2 prev' where r: "ps' = ps1 @ ps2"
      "length ps1 = length p1" "prefix (concat ps1) (drop (length piece) s)"
      "rx p2 prev' (drop (length (concat ps1)) (drop (length piece) s)) = Some ps2"
      by blast
    from piece obtain t where s: "s = piece @ t" by (auto simp: prefix_def)
    with r(3) have "prefix (piece @ concat ps1) s" by simp
    moreover have "drop (length (concat ps1)) (drop (length piece) s)
        = drop (length (concat (piece # ps1))) s" by (simp add: add.commute)
    ultimately show ?thesis
      using ps r by (intro exI[of _ "piece # ps1"] exI[of _ ps2] exI[of _ prev']) simp
  qed
  show ?case
  proof (cases i)
    case (Ch c q)
    with Cons.prems have "rx (Ch c q # (p1 @ p2)) prev s = Some ps" by (simp only: append_Cons)
    from rx_Ch_SomeD[OF this] obtain k ps' where k: "k \<in> set (counts q c s)"
      "ps = take k s # ps'"
      "rx (p1 @ p2) (prev_after prev (take k s)) (drop k s) = Some ps'"
      by blast
    from counts_le[OF k(1)] have "length (take k s) = k" by simp
    with k show ?thesis by (intro step[of "take k s" ps']) (simp_all add: take_is_prefix)
  next
    case Bol
    with Cons.prems obtain ps' where "ps = [] # ps'" "rx (p1 @ p2) prev s = Some ps'"
      by (auto split: if_splits)
    then show ?thesis by (intro step[of "[]" ps' prev]) simp_all
  next
    case Eol
    with Cons.prems obtain ps' where "ps = [] # ps'" "rx (p1 @ p2) prev s = Some ps'"
      by (auto split: if_splits)
    then show ?thesis by (intro step[of "[]" ps' prev]) simp_all
  qed
qed

lemma rx_lit_prefix: "rx (lit w @ p) prev s = Some ps \<Longrightarrow> prefix (u w) s"
proof (induction w arbitrary: prev s ps)
  case Nil
  then show ?case by (simp add: u_def)
next
  case (Cons ch w)
  from Cons.prems have "rx (Ch (\<lambda>x. x = of_char ch) Once # (lit w @ p)) prev s = Some ps"
    by (simp add: lit_def)
  from rx_Ch_SomeD[OF this] obtain k ps' where k:
    "k \<in> set (counts Once (\<lambda>x. x = of_char ch) s)"
    "rx (lit w @ p) (prev_after prev (take k s)) (drop k s) = Some ps'"
    by blast
  from k(1) obtain t where s: "s = of_char ch # t" "k = 1"
    by (cases s) (auto split: if_splits)
  with k(2) Cons.IH have "prefix (u w) t" by auto
  with s show ?case by (simp add: u_def)
qed

lemma rx_contains:
  assumes "rx (p1 @ lit w @ p2) prev s = Some ps"
  shows "sublist (u w) s"
proof -
  from rx_append[OF assms] obtain ps1 ps2 prev' where
    "prefix (concat ps1) s" "rx (lit w @ p2) prev' (drop (length (concat ps1)) s) = Some ps2"
    by blast
  from rx_lit_prefix[OF this(2)] have "prefix (u w) (drop (length (concat ps1)) s)" .
  then have "sublist (u w) (drop (length (concat ps1)) s)" by simp
  moreover have "suffix (drop (length (concat ps1)) s) s" by (rule suffix_drop)
  ultimately show ?thesis by (meson sublist_order.order_trans suffix_imp_sublist)
qed

lemma hit_in_scan:
  "Hit ps \<in> set (re_scan p prev k s) \<Longrightarrow> \<exists>prev' s'. suffix s' s \<and> rx p prev' s' = Some ps"
proof (induction p prev k s rule: re_scan.induct)
  case (1 p prev k)
  then show ?case by simp
next
  case (2 p prev k x xs)
  then obtain prev' s' where "suffix s' xs" "rx p prev' s' = Some ps"
    by auto
  then show ?case by (auto intro: suffix_ConsI)
next
  case (3 p prev x xs)
  show ?case
  proof (cases "rx p prev (x # xs)")
    case None
    with 3 obtain prev' s' where "suffix s' xs" "rx p prev' s' = Some ps"
      by auto
    then show ?thesis by (auto intro: suffix_ConsI)
  next
    case (Some qs)
    show ?thesis
    proof (cases "concat qs = []")
      case True
      with Some "3.prems" have "Hit ps \<in> set (re_scan p (Some x) 0 xs)"
        by (simp del: concat_eq_Nil_conv)
      from "3.IH"(2)[OF Some True this] obtain prev' s' where
        "suffix s' xs" "rx p prev' s' = Some ps" by blast
      then show ?thesis by (auto intro: suffix_ConsI)
    next
      case False
      with Some "3.prems" have
        "ps = qs \<or> Hit ps \<in> set (re_scan p (Some x) (length (concat qs) - 1) xs)"
        by (simp del: concat_eq_Nil_conv)
      then show ?thesis
      proof
        assume "ps = qs"
        with Some show ?thesis by (intro exI[of _ prev] exI[of _ "x # xs"]) simp
      next
        assume "Hit ps \<in> set (re_scan p (Some x) (length (concat qs) - 1) xs)"
        from "3.IH"(3)[OF Some False this] obtain prev' s' where
          "suffix s' xs" "rx p prev' s' = Some ps" by blast
        then show ?thesis by (auto intro: suffix_ConsI)
      qed
    qed
  qed
qed

lemma re_scan_identity:
  assumes "\<And>prev' s' ps. suffix s' s \<Longrightarrow> rx p prev' s' = Some ps \<Longrightarrow> repl ps = concat ps"
  shows "k \<le> length s \<Longrightarrow> concat (map (render repl) (re_scan p prev k s)) = drop k s"
  using assms
proof (induction p prev k s rule: re_scan.induct)
  case (1 p prev k)
  then show ?case by simp
next
  case (2 p prev k x xs)
  have "concat (map (render repl) (re_scan p (Some x) k xs)) = drop k xs"
    using "2.prems" by (intro "2.IH") (auto intro: suffix_ConsI)
  then show ?case by simp
next
  case (3 p prev x xs)
  have sub: "\<And>prev' s' ps. suffix s' xs \<Longrightarrow> rx p prev' s' = Some ps \<Longrightarrow> repl ps = concat ps"
    using "3.prems"(2) by (auto intro: suffix_ConsI)
  show ?case
  proof (cases "rx p prev (x # xs)")
    case None
    with "3.IH"(1)[OF None _ sub] show ?thesis by simp
  next
    case (Some qs)
    show ?thesis
    proof (cases "concat qs = []")
      case True
      with "3.IH"(2)[OF Some True _ sub] Some show ?thesis by simp
    next
      case False
      from rx_prefix[OF Some] obtain t where t: "x # xs = concat qs @ t"
        by (auto simp: prefix_def)
      with False obtain r where r: "concat qs = x # r" "xs = r @ t"
        by (cases "concat qs") auto
      have "repl qs = concat qs" using "3.prems"(2)[of "x # xs" prev qs] Some by simp
      moreover have "concat (map (render repl) (re_scan p (Some x) (length (concat qs) - 1) xs))
          = drop (length (concat qs) - 1) xs"
        using r by (intro "3.IH"(3)[OF Some False _ sub]) simp_all
      ultimately show ?thesis using Some False r by simp
    qed
  qed
qed

lemma re_sub_identity:
  assumes "\<And>prev' s' ps. suffix s' s \<Longrightarrow> rx p prev' s' = Some ps \<Longrightarrow> repl ps = concat ps"
  shows "re_sub p repl s = s"
  using re_scan_identity[of s p repl 0 None] assms by (simp add: re_sub_def)

lemma re_sub_no_match:
  assumes "\<And>prev' s' ps. rx p prev' s' = Some ps \<Longrightarrow> sublist w s'" and "\<not> sublist w s"
  shows "re_sub p repl s = s"
proof (rule re_sub_identity)
  fix prev' s' ps
  assume "suffix s' s" "rx p prev' s' = Some ps"
  with assms(1) have "sublist w s'" "sublist s' s" by auto
  then have "sublist w s" by (meson sublist_order.order_trans)
  with assms(2) show "repl ps = concat ps" by simp
qed

section \<open>Properties of the Content Transformer\<close>

text \<open>Logging does not change what a reference resolves to, so the link pass is a pure
  substitution against the registry it started with, plus one log line per miss.\<close>

lemma replace_page_link_fst_cong:
  "page_mapping c' = page_mapping c \<Longrightarrow> fst (replace_page_link ps c') = fst (replace_page_link ps c)"
  by (simp add: replace_page_link_def Let_def split: option.splits)

lemma re_sub_st_link:
  "re_sub_st replace_page_link toks c =
     (concat (map (render (\<lambda>ps. fst (replace_page_link ps c))) toks),
      c\<lparr>conversion_log := conversion_log c
           @ map Link_missing (filter (\<lambda>n. map_of (page_mapping c) n = None) (link_names toks))\<rparr>)"
proof (induction toks arbitrary: c)
  case Nil
  then show ?case by simp
next
  case (Cons t toks)
  show ?case
  proof (cases t)
    case (Lit x)
    with Cons.IH[of c] show ?thesis by simp
  next
    case (Hit ps)
    show ?thesis
    proof (cases "map_of (page_mapping c) (ps ! 2)")
      case None
      let ?c1 = "log (Link_missing (ps ! 2)) c"
      have r: "replace_page_link ps c = (anchor_link (ps ! 2), ?c1)"
        using None by (simp add: replace_page_link_def Let_def)
      have same: "(\<lambda>qs. fst (replace_page_link qs ?c1)) = (\<lambda>qs. fst (replace_page_link qs c))"
        by (rule ext, rule replace_page_link_fst_cong) simp
      show ?thesis
        using Hit None r Cons.IH[of ?c1] by (simp add: same) (simp add: log_def)
    next
      case (Some v)
      obtain fn pid where v: "v = (fn, pid)" by (cases v)
      have r: "replace_page_link ps c = (page_link (ps ! 2) fn, c)"
        using Some v by (simp add: replace_page_link_def Let_def)
      show ?thesis
        using Hit Some r Cons.IH[of c] by simp
    qed
  qed
qed

lemma link_pass_fst:
  "fst (link_pass s c) = re_sub link_re (\<lambda>ps. fst (replace_page_link ps c)) s"
  by (simp add: link_pass_def re_sub_st_link re_sub_def)

lemma u_append: "u (a @ b) = u a @ u b"
  by (simp add: u_def)

lemma sublist_trans: "sublist a b \<Longrightarrow> sublist b c \<Longrightarrow> sublist a (c::'a list)"
  by (meson sublist_order.order_trans)

lemma link_pass_settled:
  assumes "\<not> sublist (u ''[['') s"
  shows "fst (link_pass s c) = s"
  unfolding link_pass_fst
proof (rule re_sub_no_match[OF _ assms])
  fix prev' s' ps
  assume "rx link_re prev' s' = Some ps"
  then have "prefix (u ''[['') s'" unfolding link_re_def by (rule rx_lit_prefix)
  then show "sublist (u ''[['') s'" by simp
qed

lemma nth_sublist_concat: "i < length xss \<Longrightarrow> sublist (xss ! i) (concat xss)"
proof -
  assume "i < length xss"
  then have "xss = take i xss @ xss ! i # drop (Suc i) xss" by (simp add: id_take_nth_drop)
  then have "concat xss = concat (take i xss) @ xss ! i @ concat (drop (Suc i) xss)"
    by (metis concat.simps(2) concat_append)
  then show ?thesis by (metis sublist_appendI)
qed

lemma convert_image_links_settled:
  assumes "\<not> sublist (u ''assets/'') s"
  shows "convert_image_links s = s"
  unfolding convert_image_links_def
proof (rule re_sub_identity)
  fix prev' s' ps
  assume suf: "suffix s' s" and m: "rx image_re prev' s' = Some ps"
  have "length ps = 7" using rx_length[OF m] by (simp add: image_re_def lit_def)
  then have "sublist (ps ! 5) (concat ps)" by (intro nth_sublist_concat) simp
  moreover have "sublist (concat ps) s'" using rx_prefix[OF m] by simp
  moreover have "sublist s' s" using suf by simp
  ultimately have in_s: "sublist (ps ! 5) s" by (blast intro: sublist_trans)
  have "\<not> sublist (u ''assets/'') (ps ! 5)"
    using assms in_s by (blast intro: sublist_trans)
  moreover have "\<not> prefix (u ''../assets/'') (ps ! 5)"
  proof
    assume "prefix (u ''../assets/'') (ps ! 5)"
    then have "sublist (u (''../'' @ ''assets/'')) (ps ! 5)" by simp
    moreover have "sublist (u ''assets/'') (u (''../'' @ ''assets/''))"
      unfolding u_append by (rule sublist_append_leftI)
    ultimately have "sublist (u ''assets/'') (ps ! 5)" by (blast intro: sublist_trans)
    with \<open>\<not> sublist (u ''assets/'') (ps ! 5)\<close> show False by simp
  qed
  ultimately show "replace_image_link ps = concat ps"
    by (simp add: replace_image_link_def Let_def)
qed

lemma task_sub_settled:
  assumes "\<not> sublist (u keyword) s"
  shows "task_sub keyword box s = s"
  unfolding task_sub_def
proof (rule re_sub_no_match[OF _ assms])
  fix prev' s' ps
  assume "rx (task_re keyword) prev' s' = Some ps"
  then have "rx (([Bol, Ch isspace Star] @ lit ''-'' @ [Ch isspace Plus]) @ lit keyword
      @ [Ch isspace Plus]) prev' s' = Some ps"
    by (simp only: task_re_def append_assoc)
  then show "sublist (u keyword) s'" by (rule rx_contains)
qed

lemma property_settled:
  assumes "\<not> sublist (u ''::'') s"
  shows "re_sub property_re repl s = s"
proof (rule re_sub_no_match[OF _ assms])
  fix prev' s' ps
  assume "rx property_re prev' s' = Some ps"
  then show "sublist (u ''::'') s'" unfolding property_re_def by (rule rx_contains)
qed

lemma block_settled:
  assumes "\<not> sublist (u ''((('') s"
  shows "re_sub block_re repl s = s"
proof (rule re_sub_no_match[OF _ assms])
  fix prev' s' ps
  assume "rx block_re prev' s' = Some ps"
  then have "prefix (u ''((('') s'" unfolding block_re_def by (rule rx_lit_prefix)
  then show "sublist (u ''((('') s'" by simp
qed

lemma query_settled:
  assumes "\<not> sublist (u ''{{'') s"
  shows "re_sub query_re repl s = s"
proof (rule re_sub_no_match[OF _ assms])
  fix prev' s' ps
  assume "rx query_re prev' s' = Some ps"
  then have "prefix (u ''{{'') s'" unfolding query_re_def by (rule rx_lit_prefix)
  then show "sublist (u ''{{'') s'" by simp
qed

lemma transform_settled:
  assumes "settled s"
  shows "fst (transform s c) = s"
proof -
  have l: "fst (link_pass s c) = s" using assms by (simp add: settled_def link_pass_settled)
  have i: "convert_image_links s = s"
    using assms by (simp add: settled_def convert_image_links_settled)
  have "convert_logseq_syntax s = s"
    using assms
    by (simp add: settled_def convert_logseq_syntax_def Let_def task_sub_settled
        property_settled block_settled query_settled)
  with l i show ?thesis
    by (simp add: transform_def convert_links_def split: prod.splits)
       (metis fst_conv)
qed

lemmas ev = u_def lit_def prev_after_def re_sub_def link_pass_def convert_links_def
  convert_image_links_def transform_def convert_logseq_syntax_def task_sub_def task_re_def
  property_re_def block_re_def query_re_def link_re_def image_re_def replace_page_link_def
  replace_image_link_def anchor_link_def page_link_def quote_def quote_byte_def utf8_def
  unreserved_def hexdigit_def basename_def isspace_def name_char_def hex_char_def one_of_def
  block_placeholder_def query_placeholder_def init_def log_def Let_def




text \<open>
  C9, every block reference is replaced. The pattern asks for three opening and three
  closing parentheses, so a block reference in LogSeq's own syntax, a UUID in double
  parentheses, passes through the whole Content Transformer unchanged; only an
  identifier in triple parentheses becomes the placeholder.
\<close>

theorem C9_block_reference_kept:
  "fst (transform (u ''((64a7c9e2-1b3d-4f5a-8c6e-9d0f1a2b3c4d))'') c)
     = u ''((64a7c9e2-1b3d-4f5a-8c6e-9d0f1a2b3c4d))''
   \<and> convert_logseq_syntax (u ''(((64a7c9e2)))'') = block_placeholder"
proof
  show "fst (transform (u ''((64a7c9e2-1b3d-4f5a-8c6e-9d0f1a2b3c4d))'') c)
     = u ''((64a7c9e2-1b3d-4f5a-8c6e-9d0f1a2b3c4d))''"
    by (rule transform_settled) (simp add: settled_def u_def sublist_Cons_right)
  show "convert_logseq_syntax (u ''(((64a7c9e2)))'') = block_placeholder"
    by (simp add: ev)
qed

text \<open>
  The plain \<open>convert_links\<close> on any text: every reference whose name has no registry
  entry becomes the anchor \<open>[name](#name)\<close>, every other one the link to its file, the
  image references are then flattened, and the log gains exactly one warning for each
  reference without an entry, in order; nothing else of the object changes, and nothing
  is raised.
\<close>

theorem convert_links_missing_references:
  "convert_links content c =
     (convert_image_links
        (re_sub link_re
           (\<lambda>ps. case map_of (page_mapping c) (ps ! 2) of
                    None \<Rightarrow> anchor_link (ps ! 2)
                  | Some (notion_filename, _) \<Rightarrow> page_link (ps ! 2) notion_filename) content),
      c\<lparr>conversion_log := conversion_log c
           @ map Link_missing
               (filter (\<lambda>n. map_of (page_mapping c) n = None)
                  (link_names (re_scan link_re None 0 content)))\<rparr>)"
proof -
  have a: "(\<lambda>ps. fst (replace_page_link ps c)) =
      (\<lambda>ps. case map_of (page_mapping c) (ps ! 2) of
                 None \<Rightarrow> anchor_link (ps ! 2)
               | Some (notion_filename, _) \<Rightarrow> page_link (ps ! 2) notion_filename)"
    by (rule ext) (simp add: replace_page_link_def Let_def split: option.splits)
  have "link_pass content c =
     (re_sub link_re (\<lambda>ps. fst (replace_page_link ps c)) content,
      c\<lparr>conversion_log := conversion_log c
           @ map Link_missing
               (filter (\<lambda>n. map_of (page_mapping c) n = None)
                  (link_names (re_scan link_re None 0 content)))\<rparr>)"
    by (simp add: link_pass_def re_sub_st_link re_sub_def)
  then show ?thesis unfolding a by (simp add: convert_links_def)
qed

section \<open>Properties of the plain run\<close>

lemma out_files_log [simp]: "out_files (log m c) = out_files c"
  by (simp add: log_def)

lemma report_total_pages_log [simp]: "report_total_pages (log m c) = report_total_pages c"
  by (simp add: log_def)

lemma conversion_log_log [simp]: "conversion_log (log m c) = conversion_log c @ [m]"
  by (simp add: log_def)

lemma keys_update: "fst ` set (AList.update k v al) = insert k (fst ` set al)"
  by (simp add: dom_update)

lemma for_each_map_page_keys:
  "\<not> generate_uuid c \<Longrightarrow>
   \<exists>c'. for_each map_page pages c = Inr c'
     \<and> fst ` set (page_mapping c') = fst ` set (page_mapping c) \<union> set pages
     \<and> out_files c' = out_files c \<and> report_total_pages c' = report_total_pages c"
proof (induction pages arbitrary: c)
  case Nil
  then show ?case by simp
next
  case (Cons p pages)
  let ?c1 = "log (Page_mapped p (create_notion_filename c p []))
               (c\<lparr>page_mapping :=
                    AList.update p (create_notion_filename c p [], []) (page_mapping c)\<rparr>)"
  have step: "map_page p c = Inr ?c1"
    using Cons.prems(1) by (simp add: map_page_def page_uuid_of_def Let_def)
  have "\<not> generate_uuid ?c1" using Cons.prems by simp
  from Cons.IH[OF this] obtain c' where c': "for_each map_page pages ?c1 = Inr c'"
    "fst ` set (page_mapping c') = fst ` set (page_mapping ?c1) \<union> set pages"
    "out_files c' = out_files ?c1" "report_total_pages c' = report_total_pages ?c1"
    by blast
  have "fst ` set (page_mapping c') = fst ` set (page_mapping c) \<union> set (p # pages)"
    using c'(2) by (simp add: keys_update)
  with c' step show ?case by (intro exI[of _ c']) simp
qed

lemma for_each_map_journal_keys:
  "\<not> generate_uuid c \<Longrightarrow> \<forall>j \<in> set journals. \<not> isl (journal_page_name e j) \<Longrightarrow>
   \<exists>c'. for_each (map_journal e) journals c = Inr c'
     \<and> fst ` set (page_mapping c') = fst ` set (page_mapping c) \<union> set journals
     \<and> out_files c' = out_files c \<and> report_total_pages c' = report_total_pages c"
proof (induction journals arbitrary: c)
  case Nil
  then show ?case by simp
next
  case (Cons j journals)
  from Cons.prems(2) obtain title where title: "journal_page_name e j = Inr title"
    by (cases "journal_page_name e j") auto
  let ?fn = "sanitize_filename title @ u ''.md''"
  let ?c1 = "log (Journal_mapped j ?fn)
               (c\<lparr>page_mapping := AList.update j (?fn, []) (page_mapping c)\<rparr>)"
  have step: "map_journal e j c = Inr ?c1"
    using Cons.prems(1) title
    by (simp add: map_journal_def page_uuid_of_def create_notion_filename_def Let_def)
  have c1: "\<not> generate_uuid ?c1" using Cons.prems by simp
  have rest: "\<forall>j \<in> set journals. \<not> isl (journal_page_name e j)"
    using Cons.prems(2) by simp
  from Cons.IH[OF c1 rest] obtain c' where c': "for_each (map_journal e) journals ?c1 = Inr c'"
    "fst ` set (page_mapping c') = fst ` set (page_mapping ?c1) \<union> set journals"
    "out_files c' = out_files ?c1" "report_total_pages c' = report_total_pages ?c1"
    by blast
  have "fst ` set (page_mapping c') = fst ` set (page_mapping c) \<union> set (j # journals)"
    using c'(2) by (simp add: keys_update)
  with c' step show ?case by (intro exI[of _ c']) simp
qed

lemma scan_pages_off:
  assumes "\<forall>j \<in> set journals. \<not> isl (journal_page_name e j)"
  shows "\<exists>c. scan_pages e pages journals (init False) = Inr c
     \<and> distinct (map fst (page_mapping c))
     \<and> fst ` set (page_mapping c) = set pages \<union> set journals
     \<and> out_files c = [] \<and> report_total_pages c = None"
proof -
  let ?c0 = "log Scan_started (init False)"
  have c0: "\<not> generate_uuid ?c0" "distinct (map fst (page_mapping ?c0))"
    by (simp_all add: init_def)
  from for_each_map_page_off[OF c0] obtain c1 where c1:
    "for_each map_page pages ?c0 = Inr c1" "\<not> generate_uuid c1"
    "distinct (map fst (page_mapping c1))"
    by blast
  from for_each_map_page_keys[OF c0(1), of pages] c1(1) have k1:
    "fst ` set (page_mapping c1) = fst ` set (page_mapping ?c0) \<union> set pages"
    "out_files c1 = out_files ?c0" "report_total_pages c1 = report_total_pages ?c0"
    by simp_all
  from for_each_map_journal_off[OF c1(2,3) assms] obtain c where c:
    "for_each (map_journal e) journals c1 = Inr c" "distinct (map fst (page_mapping c))"
    by blast
  from for_each_map_journal_keys[OF c1(2) assms] c(1) have k:
    "fst ` set (page_mapping c) = fst ` set (page_mapping c1) \<union> set journals"
    "out_files c = out_files c1" "report_total_pages c = report_total_pages c1"
    by simp_all
  have "fst ` set (page_mapping c) = set pages \<union> set journals"
    using k(1) k1(1) by (simp add: init_def)
  moreover have "out_files c = []" "report_total_pages c = None"
    using k k1 by (simp_all add: init_def)
  ultimately show ?thesis using c c1(1) by (intro exI[of _ c]) (simp add: scan_pages_def)
qed

text \<open>What one document's conversion leaves unchanged, and what it adds.\<close>

lemma transform_snd:
  "snd (transform s c) = c\<lparr>conversion_log := conversion_log c
     @ map Link_missing
         (filter (\<lambda>n. map_of (page_mapping c) n = None)
            (link_names (re_scan link_re None 0 s)))\<rparr>"
  by (simp add: transform_def convert_links_def link_pass_def re_sub_st_link split: prod.splits)

lemma convert_file_mapping: "page_mapping (convert_file e f target c) = page_mapping c"
proof (cases "text_of f")
  case None
  then show ?thesis by (simp add: convert_file_def)
next
  case (Some content)
  obtain content' c' where t: "transform content c = (content', c')"
    by (cases "transform content c")
  with transform_snd[of content c] have "page_mapping c' = page_mapping c" by simp
  with Some t show ?thesis by (simp add: convert_file_def split: prod.splits)
qed

lemma convert_page_mapping: "page_mapping (convert_page e f c) = page_mapping c"
  by (simp add: convert_page_def convert_file_mapping split: option.splits)

lemma fold_convert_page_mapping: "page_mapping (fold (convert_page e) fs c) = page_mapping c"
  by (induction fs arbitrary: c) (simp_all add: convert_page_mapping)

lemma create_page_hierarchy_frame:
  "page_mapping (create_page_hierarchy c) = page_mapping c
   \<and> out_files (create_page_hierarchy c) = out_files c
   \<and> report_total_pages (create_page_hierarchy c) = report_total_pages c"
proof -
  have "page_mapping (fold (\<lambda>entry. log (Page_prepared (fst entry))) es d) = page_mapping d
     \<and> out_files (fold (\<lambda>entry. log (Page_prepared (fst entry))) es d) = out_files d
     \<and> report_total_pages (fold (\<lambda>entry. log (Page_prepared (fst entry))) es d)
         = report_total_pages d" for es d
    by (induction es arbitrary: d) simp_all
  from this[of "page_mapping c" "log Hierarchy_started c"] show ?thesis
    by (simp add: create_page_hierarchy_def)
qed

text \<open>The copy of the assets touches neither the registry nor the page files, and it
  completes when the output directory can be made and every asset can be copied.\<close>

lemma for_each_copy_asset_frame:
  "list_all (\<lambda>a. copy_ok e (fst a)) files \<Longrightarrow>
   \<exists>c'. for_each (copy_asset e) files c = Inr c' \<and> page_mapping c' = page_mapping c
     \<and> out_files c' = out_files c"
proof (induction files arbitrary: c)
  case Nil
  then show ?case by simp
next
  case (Cons a files)
  obtain path name where a: "a = (path, name)" by (cases a)
  let ?c1 = "log (Asset_copied name)
               (c\<lparr>asset_mapping := AList.update path name (asset_mapping c)\<rparr>)"
  have step: "copy_asset e a c = Inr ?c1"
    using Cons.prems a by (simp add: copy_asset_def)
  from Cons.prems have "list_all (\<lambda>a. copy_ok e (fst a)) files" by simp
  from Cons.IH[OF this, of ?c1] obtain c' where
    "for_each (copy_asset e) files ?c1 = Inr c'" "page_mapping c' = page_mapping ?c1"
    "out_files c' = out_files ?c1"
    by blast
  with step show ?case by (intro exI[of _ c']) simp
qed

lemma copy_and_convert_assets_frame:
  assumes "assets_copyable e"
  shows "\<exists>c'. copy_and_convert_assets e c = Inr c' \<and> page_mapping c' = page_mapping c
     \<and> out_files c' = out_files c"
proof (cases "asset_files e")
  case None
  then show ?thesis by (simp add: copy_and_convert_assets_def)
next
  case (Some files)
  with assms have ok: "assets_dir_ok e" "list_all (\<lambda>a. copy_ok e (fst a)) files"
    by (simp_all add: assets_copyable_def)
  from for_each_copy_asset_frame[OF ok(2), of "log Assets_started c"] Some ok(1)
  show ?thesis by (simp add: copy_and_convert_assets_def)
qed

lemma create_zip_package_frame:
  "page_mapping (create_zip_package e c) = page_mapping c
   \<and> out_files (create_zip_package e c) = out_files c"
  by (simp add: create_zip_package_def)

lemmas run_ev = convert_def scan_pages_def map_page_def page_uuid_of_def
  create_notion_filename_def sanitize_filename_def strip_def hostile_def
  create_page_hierarchy_def copy_and_convert_assets_def convert_all_pages_def convert_page_def
  convert_file_def open_and_write_def generate_conversion_report_def create_zip_package_def
  env0_def

text \<open>
  C7, a failed write and the page count. The pages \<open>A\<close> and \<open>B\<close> are scanned, and the page
  file \<open>A.md\<close> cannot be opened. The failure is caught and logged and the run goes on:
  \<open>B.md\<close> is written. The output holds one page file, but the report gives
  \<open>total_pages\<close> 2 and the closing line of the log says that 2 pages were converted: both
  take the number of registry entries, which counts the failed document.
\<close>

theorem C7_failed_write_still_counted:
  "map_sum id (\<lambda>c. (out_files c, report_total_pages c, conversion_log c))
     (convert env1 [page_a, page_b] [] (init False))
   = Inr ([(u ''B.md'', u ''x'')], Some 2,
          [Scan_started, Page_mapped (u ''A'') (u ''A.md''), Page_mapped (u ''B'') (u ''B.md''),
           Hierarchy_started, Page_prepared (u ''A''), Page_prepared (u ''B''),
           Assets_started, Assets_missing, Content_started, File_failed (u ''A''),
           File_converted (u ''B'') (u ''B.md''), Report_written, Zip_started, Zip_written,
           Zip_size, Pages_total 2])"
  by (simp add: run_ev env1_def page_a_def page_b_def ev)

lemma set_update_subset: "set (AList.update k v al) \<subseteq> insert (k, v) (set al)"
  by (induction al) auto

lemma transform_fst_cong:
  assumes "page_mapping c' = page_mapping c"
  shows "fst (transform s c') = fst (transform s c)"
proof -
  have "(\<lambda>ps. fst (replace_page_link ps c')) = (\<lambda>ps. fst (replace_page_link ps c))"
    by (rule ext) (rule replace_page_link_fst_cong[OF assms])
  then have "fst (link_pass s c') = fst (link_pass s c)" by (simp add: link_pass_fst)
  moreover have "fst (transform s d) = convert_logseq_syntax (convert_image_links (fst (link_pass s d)))"
    for d by (simp add: transform_def convert_links_def split: prod.splits)
  ultimately show ?thesis by simp
qed

text \<open>When no write is cut short, a page file holds the text of its document,
  rewritten against the registry.\<close>

lemma convert_file_out:
  assumes "write_cut e = (\<lambda>_ _. None)"
    and "f \<in> fs" and "map_of (page_mapping c0) (stem f) = Some (target, pid)"
    and "page_mapping c = page_mapping c0"
    and "\<forall>file \<in> set (out_files c). rewritten_from fs c0 file"
  shows "\<forall>file \<in> set (out_files (convert_file e f target c)). rewritten_from fs c0 file"
proof (cases "text_of f")
  case None
  with assms(5) show ?thesis by (simp add: convert_file_def)
next
  case (Some content)
  obtain content' c' where t: "transform content c = (content', c')"
    by (cases "transform content c")
  have out: "out_files c' = out_files c"
    using transform_snd[of content c] t by simp
  have "content' = fst (transform content c0)"
    using transform_fst_cong[OF assms(4), of content] t by simp
  then have new: "rewritten_from fs c0 (target, content')"
    using assms(2,3) Some by (auto simp: rewritten_from_def)
  show ?thesis
  proof (cases "open_ok e target")
    case True
    have "set (out_files (convert_file e f target c))
        \<subseteq> insert (target, content') (set (out_files c))"
      using Some t True out assms(1) set_update_subset[of target content' "out_files c"]
      by (simp add: convert_file_def open_and_write_def)
    with new assms(5) show ?thesis by blast
  next
    case False
    with Some t out assms(5) show ?thesis by (simp add: convert_file_def open_and_write_def)
  qed
qed

lemma fold_convert_page_out:
  assumes "write_cut e = (\<lambda>_ _. None)"
    and "set gs \<subseteq> fs" and "page_mapping c = page_mapping c0"
    and "\<forall>file \<in> set (out_files c). rewritten_from fs c0 file"
  shows "\<forall>file \<in> set (out_files (fold (convert_page e) gs c)). rewritten_from fs c0 file"
  using assms(2-)
proof (induction gs arbitrary: c)
  case Nil
  then show ?case by simp
next
  case (Cons g gs)
  have pm: "page_mapping (convert_page e g c) = page_mapping c0"
    using Cons.prems(2) by (simp add: convert_page_mapping)
  have out: "\<forall>file \<in> set (out_files (convert_page e g c)). rewritten_from fs c0 file"
  proof (cases "map_of (page_mapping c) (stem g)")
    case None
    with Cons.prems(3) show ?thesis by (simp add: convert_page_def)
  next
    case (Some v)
    obtain target pid where v: "v = (target, pid)" by (cases v)
    have g: "g \<in> fs" using Cons.prems(1) by simp
    have look: "map_of (page_mapping c0) (stem g) = Some (target, pid)"
      using Some v Cons.prems(2) by simp
    from convert_file_out[OF assms(1) g look Cons.prems(2,3)]
    show ?thesis using Some v by (simp add: convert_page_def)
  qed
  have "set gs \<subseteq> fs" using Cons.prems(1) by simp
  from Cons.IH[OF this pm out] show ?case by simp
qed

text \<open>A document that can be read and whose page file can be opened has its page file
  in the output from then on.\<close>

lemma convert_file_keys:
  "fst ` set (out_files c) \<subseteq> fst ` set (out_files (convert_file e f target c))"
proof (cases "text_of f")
  case None
  then show ?thesis by (simp add: convert_file_def)
next
  case (Some content)
  obtain content' c' where t: "transform content c = (content', c')"
    by (cases "transform content c")
  have out: "out_files c' = out_files c"
    using transform_snd[of content c] t by simp
  show ?thesis
    using Some t out
    by (auto simp: convert_file_def open_and_write_def keys_update split: option.splits)
qed

lemma convert_file_written:
  assumes "text_of f = Some content" and "open_ok e target"
  shows "target \<in> fst ` set (out_files (convert_file e f target c))"
proof -
  obtain content' c' where t: "transform content c = (content', c')"
    by (cases "transform content c")
  show ?thesis
    using assms t
    by (auto simp: convert_file_def open_and_write_def keys_update split: option.splits)
qed

lemma convert_page_keys:
  "fst ` set (out_files c) \<subseteq> fst ` set (out_files (convert_page e f c))"
  using convert_file_keys[of c e f] by (auto simp: convert_page_def split: option.splits)

lemma fold_convert_page_keys:
  "fst ` set (out_files c) \<subseteq> fst ` set (out_files (fold (convert_page e) fs c))"
proof (induction fs arbitrary: c)
  case Nil
  then show ?case by simp
next
  case (Cons f fs)
  from Cons.IH[of "convert_page e f c"] convert_page_keys[of c e f]
  show ?case by auto
qed

lemma fold_convert_page_written:
  assumes "f \<in> set fs" and "map_of (page_mapping c) (stem f) = Some (target, pid)"
    and "text_of f = Some content" and "open_ok e target"
  shows "target \<in> fst ` set (out_files (fold (convert_page e) fs c))"
  using assms(1,2)
proof (induction fs arbitrary: c)
  case Nil
  then show ?case by simp
next
  case (Cons g fs)
  show ?case
  proof (cases "f = g")
    case True
    have "convert_page e g c = convert_file e f target c"
      using True Cons.prems(2) by (simp add: convert_page_def)
    with convert_file_written[OF assms(3,4), of c]
    have "target \<in> fst ` set (out_files (convert_page e g c))" by simp
    with fold_convert_page_keys[of "convert_page e g c" e fs] show ?thesis by auto
  next
    case False
    with Cons.prems(1) have "f \<in> set fs" by simp
    moreover have "map_of (page_mapping (convert_page e g c)) (stem f) = Some (target, pid)"
      using Cons.prems(2) by (simp add: convert_page_mapping)
    ultimately show ?thesis using Cons.IH[of "convert_page e g c"] by simp
  qed
qed

text \<open>
  The two phases of the plain run. When no journal stem raises in the scan, the assets
  can be copied, the report can be written and no write is cut short, the scan ends
  with an entry for every stem of both collections, the rest of the run leaves the
  registry as the scan built it, every page file of the output is a document's text
  rewritten against that complete registry, and every document that can be read and
  whose page file can be opened has its page file in the output.
\<close>

theorem plain_run_rewrites_against_total_registry:
  assumes "\<forall>j \<in> set journals. \<not> isl (journal_page_name e (stem j))"
    and "assets_copyable e" and "report_ok e" and "write_cut e = (\<lambda>_ _. None)"
  shows "\<exists>c1 c. scan_pages e (map stem pages) (map stem journals) (init False) = Inr c1
     \<and> fst ` set (page_mapping c1) = stem ` (set pages \<union> set journals)
     \<and> convert e pages journals (init False) = Inr c
     \<and> page_mapping c = page_mapping c1
     \<and> (\<forall>file \<in> set (out_files c). rewritten_from (set pages \<union> set journals) c1 file)
     \<and> (\<forall>f \<in> set pages \<union> set journals. \<forall>target pid.
          text_of f \<noteq> None \<and> map_of (page_mapping c1) (stem f) = Some (target, pid)
          \<and> open_ok e target \<longrightarrow> target \<in> fst ` set (out_files c))"
proof -
  have ok: "\<forall>j \<in> set (map stem journals). \<not> isl (journal_page_name e j)"
    using assms(1) by simp
  from scan_pages_off[OF ok, of "map stem pages"] obtain c1 where c1:
    "scan_pages e (map stem pages) (map stem journals) (init False) = Inr c1"
    "fst ` set (page_mapping c1) = set (map stem pages) \<union> set (map stem journals)"
    "out_files c1 = []"
    by blast
  from copy_and_convert_assets_frame[OF assms(2), of "create_page_hierarchy c1"]
  obtain c2 where c2: "copy_and_convert_assets e (create_page_hierarchy c1) = Inr c2"
    "page_mapping c2 = page_mapping (create_page_hierarchy c1)"
    "out_files c2 = out_files (create_page_hierarchy c1)"
    by blast
  define c2' where "c2' = log Content_started c2"
  define c3a where "c3a = fold (convert_page e) pages c2'"
  define c3 where "c3 = fold (convert_page e) journals c3a"
  define c4 where
    "c4 = log Report_written (c3\<lparr>report_total_pages := Some (length (page_mapping c3))\<rparr>)"
  define c5 where "c5 = create_zip_package e c4"
  define c where "c = log (Pages_total (length (page_mapping c5))) c5"
  let ?fs = "set pages \<union> set journals"
  have pm2: "page_mapping c2' = page_mapping c1" "out_files c2' = []"
    using create_page_hierarchy_frame[of c1] c1(3) c2(2,3) by (simp_all add: c2'_def)
  have out2: "\<forall>file \<in> set (out_files c2'). rewritten_from ?fs c1 file"
    using pm2(2) by simp
  have pm3a: "page_mapping c3a = page_mapping c1"
    using pm2(1) by (simp add: c3a_def fold_convert_page_mapping)
  have out3a: "\<forall>file \<in> set (out_files c3a). rewritten_from ?fs c1 file"
    unfolding c3a_def by (rule fold_convert_page_out[OF assms(4) _ pm2(1) out2]) simp
  have pm3: "page_mapping c3 = page_mapping c1"
    using pm3a by (simp add: c3_def fold_convert_page_mapping)
  have out3: "\<forall>file \<in> set (out_files c3). rewritten_from ?fs c1 file"
    unfolding c3_def by (rule fold_convert_page_out[OF assms(4) _ pm3a out3a]) simp
  have all: "convert_all_pages e pages journals c2 = c3"
    by (simp add: convert_all_pages_def c3_def c3a_def c2'_def)
  have report: "generate_conversion_report e c3 = Inr c4"
    using assms(3) by (simp add: generate_conversion_report_def c4_def)
  have run: "convert e pages journals (init False) = Inr c"
    unfolding convert_def using c1(1) c2(1) report all by (simp add: c_def c5_def Let_def)
  have pm5: "page_mapping c5 = page_mapping c1" "out_files c5 = out_files c3"
    using pm3 create_zip_package_frame[of e c4] by (simp_all add: c5_def c4_def)
  have pm: "page_mapping c = page_mapping c1" using pm5 by (simp add: c_def)
  have same: "out_files c = out_files c3" using pm5 by (simp add: c_def)
  have out: "\<forall>file \<in> set (out_files c). rewritten_from ?fs c1 file"
    using out3 same by simp
  have keys: "fst ` set (page_mapping c1) = stem ` ?fs"
    using c1(2) by (simp add: image_Un)
  have written: "target \<in> fst ` set (out_files c)"
    if f: "f \<in> ?fs" and r: "text_of f \<noteq> None"
      and look: "map_of (page_mapping c1) (stem f) = Some (target, pid)"
      and op: "open_ok e target" for f target pid
  proof -
    from r obtain content where content: "text_of f = Some content" by auto
    from f show ?thesis
    proof
      assume "f \<in> set pages"
      from fold_convert_page_written[OF this _ content op, of c2' pid] look pm2(1)
      have "target \<in> fst ` set (out_files c3a)" by (simp add: c3a_def)
      with fold_convert_page_keys[of c3a e journals] show ?thesis
        by (auto simp: same c3_def)
    next
      assume "f \<in> set journals"
      from fold_convert_page_written[OF this _ content op, of c3a pid] look pm3a
      show ?thesis by (simp add: same c3_def)
    qed
  qed
  have w: "\<forall>f \<in> ?fs. \<forall>target pid.
          text_of f \<noteq> None \<and> map_of (page_mapping c1) (stem f) = Some (target, pid)
          \<and> open_ok e target \<longrightarrow> target \<in> fst ` set (out_files c)"
    using written by blast
  from c1(1) keys run pm out w show ?thesis by (intro exI[of _ c1] exI[of _ c] conjI)
qed

theorem plain_run_rewrites_witness:
  "\<exists>c1 c. scan_pages env0 (map stem [page_fwd, page_b]) (map stem ([] :: source_file list))
         (init False) = Inr c1
     \<and> fst ` set (page_mapping c1) = stem ` (set [page_fwd, page_b] \<union> set [])
     \<and> convert env0 [page_fwd, page_b] [] (init False) = Inr c
     \<and> page_mapping c = page_mapping c1
     \<and> (\<forall>file \<in> set (out_files c).
           rewritten_from (set [page_fwd, page_b] \<union> set []) c1 file)
     \<and> (\<forall>f \<in> set [page_fwd, page_b] \<union> set []. \<forall>target pid.
          text_of f \<noteq> None \<and> map_of (page_mapping c1) (stem f) = Some (target, pid)
          \<and> open_ok env0 target \<longrightarrow> target \<in> fst ` set (out_files c))"
proof -
  have h1: "\<forall>j \<in> set ([] :: source_file list). \<not> isl (journal_page_name env0 (stem j))"
    by simp
  have h2: "assets_copyable env0" by (simp add: assets_copyable_def env0_def)
  have h3: "report_ok env0" by (simp add: env0_def)
  have h4: "write_cut env0 = (\<lambda>_ _. None)" by (simp add: env0_def)
  show ?thesis by (rule plain_run_rewrites_against_total_registry[OF h1 h2 h3 h4])
qed

section \<open>Properties of the tabular run\<close>

lemmas t_ev = scan_and_convert_pages_def process_page_file_def page_title_def
  determine_page_type_def convert_date_format_def cn_date_re_def date_re_def re_match_def
  isdecimal_def t_create_notion_filename_def sanitize_filename_def strip_def hostile_def
  create_notion_page_def open_and_write_def t_convert_links_def t_replace_page_link_def
  t_log_def t_init_def env0_def

lemma summary_ghost: "extract_summary (u ''[[Ghost]]'') = u ''[[Ghost]]''"
  by (simp add: extract_summary_def ev dot_def strip_def)

lemma summary_fwd: "extract_summary (u ''[[B]]'') = u ''[[B]]''"
  by (simp add: extract_summary_def ev dot_def strip_def)

lemma summary_x: "extract_summary (u ''x'') = u ''x''"
  by (simp add: extract_summary_def ev dot_def strip_def)

text \<open>
  C1, no rewriting before the registry is total. The tabular converter enters a page in
  the registry and rewrites its body in the same step of one loop. With the pages \<open>A\<close>
  (body \<open>[[B]]\<close>) and \<open>B\<close> listed in this order, the file of \<open>A\<close> is written while \<open>B\<close> has
  no entry yet, so the reference stays the unresolved \<open>[B]\<close>, although the finished
  registry maps \<open>B\<close> to \<open>B.md\<close>. The plain converter scans first and writes the link
  \<open>[B](B.md)\<close> for the same input.
\<close>

theorem C1_forward_reference_unresolved:
  "map_sum id (\<lambda>t. (map_of (t_out_files t) (u ''A.md''), map_of (t_page_mapping t) (u ''B'')))
     (scan_and_convert_pages env0 [page_fwd, page_b] [] (t_init False))
   = Inr (Some (page_header (u ''A'') Article [] (u ''[[B]]'') @ u ''[B]''),
          Some (u ''B.md'', []))
   \<and> map_sum id (\<lambda>c. map_of (out_files c) (u ''A.md''))
       (convert env0 [page_fwd, page_b] [] (init False))
     = Inr (Some (u ''[B](B.md)''))"
proof -
  have a: "map_sum id
      (\<lambda>t. (map_of (t_out_files t) (u ''A.md''), map_of (t_page_mapping t) (u ''B'')))
      (scan_and_convert_pages env0 [page_fwd, page_b] [] (t_init False))
    = Inr (Some (page_header (u ''A'') Article [] (u ''[[B]]'') @ u ''[B]''),
           Some (u ''B.md'', []))"
    by (simp add: page_fwd_def page_b_def t_ev summary_fwd[unfolded u_def, simplified]
        summary_x[unfolded u_def, simplified] ev)
  have b: "map_sum id (\<lambda>c. map_of (out_files c) (u ''A.md''))
       (convert env0 [page_fwd, page_b] [] (init False))
     = Inr (Some (u ''[B](B.md)''))"
    by (simp add: run_ev page_fwd_def page_b_def ev)
  from a b show ?thesis by (rule conjI)
qed

text \<open>
  C6, an unresolved cross-reference. For the page \<open>A\<close> with the body \<open>[[Ghost]]\<close>, where
  no document is named \<open>Ghost\<close>, the tabular converter writes the bare \<open>[Ghost]\<close> below
  the header of the page file, which is no anchor, and its log holds no warning. The
  plain converter writes the anchor \<open>[Ghost](#Ghost)\<close> for the same page and logs one
  warning that names \<open>Ghost\<close>. Both runs complete.
\<close>

theorem C6_tabular_reference_unmarked:
  "map_sum id (\<lambda>t. (t_conversion_log t, map_of (t_out_files t) (u ''A.md'')))
     (scan_and_convert_pages env0 [ghost_page] [] (t_init False))
   = Inr ([Scan_started, Page_converted (u ''A'') (u ''A'')],
          Some (u ''# A'' @ [10, 10] @ u ''Created by: LogSeq'' @ [23548, 20837, 10]
                @ [29366, 24577] @ u '': Not started'' @ [10]
                @ [39029, 38754, 31867, 22411] @ u '': '' @ [25991, 31456, 10]
                @ [25688, 35201] @ u '': [[Ghost]]'' @ [10, 10] @ u ''---'' @ [10, 10]
                @ u ''[Ghost]''))
   \<and> map_sum id (\<lambda>c. (conversion_log c, map_of (out_files c) (u ''A.md'')))
       (convert env0 [ghost_page] [] (init False))
     = Inr ([Scan_started, Page_mapped (u ''A'') (u ''A.md''), Hierarchy_started,
             Page_prepared (u ''A''), Assets_started, Assets_missing, Content_started,
             Link_missing (u ''Ghost''), File_converted (u ''A'') (u ''A.md''),
             Report_written, Zip_started, Zip_written, Zip_size, Pages_total 1],
            Some (u ''[Ghost](#Ghost)''))"
proof -
  have a: "map_sum id (\<lambda>t. (t_conversion_log t, map_of (t_out_files t) (u ''A.md'')))
     (scan_and_convert_pages env0 [ghost_page] [] (t_init False))
   = Inr ([Scan_started, Page_converted (u ''A'') (u ''A'')],
          Some (u ''# A'' @ [10, 10] @ u ''Created by: LogSeq'' @ [23548, 20837, 10]
                @ [29366, 24577] @ u '': Not started'' @ [10]
                @ [39029, 38754, 31867, 22411] @ u '': '' @ [25991, 31456, 10]
                @ [25688, 35201] @ u '': [[Ghost]]'' @ [10, 10] @ u ''---'' @ [10, 10]
                @ u ''[Ghost]''))"
    by (simp add: ghost_page_def t_ev summary_ghost[unfolded u_def, simplified] ev
        page_header_def page_type_text_def)
  have b: "map_sum id (\<lambda>c. (conversion_log c, map_of (out_files c) (u ''A.md'')))
       (convert env0 [ghost_page] [] (init False))
     = Inr ([Scan_started, Page_mapped (u ''A'') (u ''A.md''), Hierarchy_started,
             Page_prepared (u ''A''), Assets_started, Assets_missing, Content_started,
             Link_missing (u ''Ghost''), File_converted (u ''A'') (u ''A.md''),
             Report_written, Zip_started, Zip_written, Zip_size, Pages_total 1],
            Some (u ''[Ghost](#Ghost)''))"
    by (simp add: run_ev ghost_page_def ev)
  from a b show ?thesis by (rule conjI)
qed

text \<open>The tabular \<open>convert_links\<close> reads the registry and the flag only, and it changes
  nothing in a text without \<open>[[\<close>.\<close>

lemma t_convert_links_cong:
  assumes "t_page_mapping a = t_page_mapping b" and "with_uuid a = with_uuid b"
  shows "t_convert_links a content = t_convert_links b content"
proof -
  have "t_replace_page_link a = t_replace_page_link b"
    using assms
    by (intro ext) (simp add: t_replace_page_link_def Let_def split: option.splits)
  then show ?thesis by (simp add: t_convert_links_def)
qed

lemma t_convert_links_settled:
  assumes "\<not> sublist (u ''[['') s"
  shows "t_convert_links t s = s"
  unfolding t_convert_links_def
proof (rule re_sub_no_match[OF _ assms])
  fix prev' s' ps
  assume "rx link_re prev' s' = Some ps"
  then have "prefix (u ''[['') s'" unfolding link_re_def by (rule rx_lit_prefix)
  then show "sublist (u ''[['') s'" by simp
qed

text \<open>
  C10, the page file of the tabular converter. For every page that is not \<open>contents\<close>,
  whose title does not raise, whose text can be read and whose file can be opened and
  written, \<open>process_page_file\<close> completes, enters the page in the registry, and leaves
  in the page file, character for character: the title line \<open>#\<close> and the display name,
  an empty line, the line \<open>Created by: LogSeq\<close> with the two characters U+5BFC U+5165,
  the start date line (label U+5F00 U+59CB U+65E5 U+671F) when there is a start date,
  the status line (label U+72B6 U+6001) with \<open>Not started\<close>, the page type line (label
  U+9875 U+9762 U+7C7B U+578B) with U+65E5 U+5FD7 for a journal and U+6587 U+7AE0 for
  an article, the summary line (label U+6458 U+8981) when the summary is not empty, an
  empty line, the rule \<open>---\<close>, an empty line, and then the body of the source with its
  cross-references converted against the registry that now holds this page. A body
  without \<open>[[\<close> follows the header unchanged.
\<close>

theorem C10_page_file_is_header_then_body:
  assumes "stem f \<noteq> u ''contents''"
    and "page_title e f = Inr (ty, display_name, start_date)"
    and "text_of f = Some content"
    and "page_uuid = (if with_uuid t then uuid4_hex e (uuid_calls t) else [])"
    and "filename = t_create_notion_filename t display_name page_uuid"
    and "open_ok e filename" and "write_cut e filename = (\<lambda>_. None)"
  shows "\<exists>t'. process_page_file e f t = Inr t'
     \<and> with_uuid t' = with_uuid t
     \<and> t_page_mapping t' = AList.update (stem f) (filename, page_uuid) (t_page_mapping t)
     \<and> map_of (t_out_files t') filename
        = Some (u ''# '' @ display_name @ [10, 10]
                @ u ''Created by: LogSeq'' @ [23548, 20837, 10]
                @ (if start_date = [] then []
                   else [24320, 22987, 26085, 26399] @ u '': '' @ start_date @ [10])
                @ [29366, 24577] @ u '': Not started'' @ [10]
                @ [39029, 38754, 31867, 22411] @ u '': ''
                @ (case ty of Journal \<Rightarrow> [26085, 24535] | Article \<Rightarrow> [25991, 31456]) @ [10]
                @ (if extract_summary content = [] then []
                   else [25688, 35201] @ u '': '' @ extract_summary content @ [10])
                @ [10] @ u ''---'' @ [10, 10]
                @ t_convert_links t' content)
     \<and> (\<not> sublist (u ''[['') content \<longrightarrow> t_convert_links t' content = content)"
proof -
  define t1 where "t1 = (if with_uuid t then t\<lparr>uuid_calls := Suc (uuid_calls t)\<rparr> else t)"
  define t2 where
    "t2 = t1\<lparr>t_page_mapping :=
               AList.update (stem f) (filename, page_uuid) (t_page_mapping t1)\<rparr>"
  define t3 where
    "t3 = t2\<lparr>database_entries := database_entries t2
             @ [\<lparr>entry_name = display_name, entry_start_date = start_date,
                  entry_page_type = ty, entry_summary = extract_summary content\<rparr>]\<rparr>"
  define body where
    "body = page_header display_name ty start_date (extract_summary content)
              @ t_convert_links t3 content"
  define t4 where "t4 = t3\<lparr>t_out_files := AList.update filename body (t_out_files t3)\<rparr>"
  define t' where "t' = t_log (Page_converted (stem f) display_name) t4"
  have fn1: "t_create_notion_filename t1 display_name page_uuid = filename"
    by (simp add: assms(5) t1_def t_create_notion_filename_def)
  have page: "create_notion_page e filename display_name ty start_date content
                (extract_summary content) t3 = t4"
    using assms(6,7) by (simp add: create_notion_page_def open_and_write_def t4_def body_def)
  have t3': "t2\<lparr>database_entries := database_entries t1
             @ [\<lparr>entry_name = display_name, entry_start_date = start_date,
                  entry_page_type = ty, entry_summary = extract_summary content\<rparr>]\<rparr> = t3"
    by (simp add: t3_def t2_def)
  have run: "process_page_file e f t = Inr t'"
    using assms(1,2,3) page
    by (simp add: process_page_file_def Let_def fn1 assms(4)[symmetric] t1_def[symmetric]
        t2_def[symmetric] t3' t'_def)
  have flag: "with_uuid t' = with_uuid t"
    by (simp add: t'_def t4_def t3_def t2_def t1_def t_log_def)
  have reg: "t_page_mapping t' = AList.update (stem f) (filename, page_uuid) (t_page_mapping t)"
    by (simp add: t'_def t4_def t3_def t2_def t1_def t_log_def)
  have links: "t_convert_links t' content = t_convert_links t3 content"
    by (rule t_convert_links_cong) (simp_all add: t'_def t4_def t_log_def)
  have written: "map_of (t_out_files t') filename = Some body"
    by (simp add: t'_def t4_def t_log_def update_conv')
  have head: "page_header display_name ty start_date (extract_summary content)
      = u ''# '' @ display_name @ [10, 10]
        @ u ''Created by: LogSeq'' @ [23548, 20837, 10]
        @ (if start_date = [] then []
           else [24320, 22987, 26085, 26399] @ u '': '' @ start_date @ [10])
        @ [29366, 24577] @ u '': Not started'' @ [10]
        @ [39029, 38754, 31867, 22411] @ u '': ''
        @ (case ty of Journal \<Rightarrow> [26085, 24535] | Article \<Rightarrow> [25991, 31456]) @ [10]
        @ (if extract_summary content = [] then []
           else [25688, 35201] @ u '': '' @ extract_summary content @ [10])
        @ [10] @ u ''---'' @ [10, 10]"
    by (simp add: page_header_def page_type_text_def)
  have plain: "\<not> sublist (u ''[['') content \<longrightarrow> t_convert_links t' content = content"
    by (simp add: t_convert_links_settled)
  from run flag reg written plain show ?thesis
    unfolding body_def head links[symmetric] by (intro exI[of _ t']) simp
qed

theorem C10_page_file_witness:
  "\<exists>t'. process_page_file env0 journal_day (t_init False) = Inr t'
     \<and> t_page_mapping t'
        = [(u ''2025_01_01'',
            u ''2025'' @ [24180] @ u ''01'' @ [26376] @ u ''01'' @ [26085] @ u ''.md'', [])]
     \<and> map_of (t_out_files t')
          (u ''2025'' @ [24180] @ u ''01'' @ [26376] @ u ''01'' @ [26085] @ u ''.md'')
        = Some (u ''# 2025'' @ [24180] @ u ''01'' @ [26376] @ u ''01'' @ [26085, 10, 10]
                @ u ''Created by: LogSeq'' @ [23548, 20837, 10]
                @ [24320, 22987, 26085, 26399] @ u '': 01/01/2025'' @ [10]
                @ [29366, 24577] @ u '': Not started'' @ [10]
                @ [39029, 38754, 31867, 22411] @ u '': '' @ [26085, 24535, 10]
                @ [25688, 35201] @ u '': Hi [[2025_01_01]] [[Ghost]]'' @ [10, 10]
                @ u ''---'' @ [10, 10]
                @ u ''**Hi** [2025_01_01](2025%E5%B9%B401%E6%9C%8801%E6%97%A5.md) [Ghost]'')"
proof -
  let ?name = "u ''2025'' @ [24180] @ u ''01'' @ [26376] @ u ''01'' @ [26085]"
  let ?content = "u ''**Hi** [[2025_01_01]] [[Ghost]]''"
  let ?t0 = "(t_init False)\<lparr>t_page_mapping := [(u ''2025_01_01'', ?name @ u ''.md'', [])]\<rparr>"
  have h1: "stem journal_day \<noteq> u ''contents''" by (simp add: journal_day_def u_def)
  have h2: "page_title env0 journal_day = Inr (Journal, ?name, u ''01/01/2025'')"
    by (simp add: journal_day_def t_ev u_def lit_def prev_after_def)
  have h3: "text_of journal_day = Some ?content" by (simp add: journal_day_def)
  have h4: "[] = (if with_uuid (t_init False) then uuid4_hex env0 (uuid_calls (t_init False))
                  else [])"
    by (simp add: t_init_def)
  have h5: "?name @ u ''.md'' = t_create_notion_filename (t_init False) ?name []"
    by (simp add: t_ev re_sub_def u_def one_of_def)
  have h6: "open_ok env0 (?name @ u ''.md'')" by (simp add: env0_def)
  have h7: "write_cut env0 (?name @ u ''.md'') = (\<lambda>_. None)" by (simp add: env0_def)
  have summary: "extract_summary ?content = u ''Hi [[2025_01_01]] [[Ghost]]''"
    by (simp add: extract_summary_def ev dot_def strip_def)
  have body: "t_convert_links ?t0 ?content
      = u ''**Hi** [2025_01_01](2025%E5%B9%B401%E6%9C%8801%E6%97%A5.md) [Ghost]''"
    by (simp add: t_ev ev)
  from C10_page_file_is_header_then_body[OF h1 h2 h3 h4 h5 h6 h7] obtain t' where t':
    "process_page_file env0 journal_day (t_init False) = Inr t'"
    "with_uuid t' = with_uuid (t_init False)"
    "t_page_mapping t' = AList.update (stem journal_day) (?name @ u ''.md'', [])
                           (t_page_mapping (t_init False))"
    "map_of (t_out_files t') (?name @ u ''.md'')
        = Some (u ''# '' @ ?name @ [10, 10]
                @ u ''Created by: LogSeq'' @ [23548, 20837, 10]
                @ (if u ''01/01/2025'' = [] then []
                   else [24320, 22987, 26085, 26399] @ u '': '' @ u ''01/01/2025'' @ [10])
                @ [29366, 24577] @ u '': Not started'' @ [10]
                @ [39029, 38754, 31867, 22411] @ u '': ''
                @ (case Journal of Journal \<Rightarrow> [26085, 24535] | Article \<Rightarrow> [25991, 31456])
                @ [10]
                @ (if extract_summary ?content = [] then []
                   else [25688, 35201] @ u '': '' @ extract_summary ?content @ [10])
                @ [10] @ u ''---'' @ [10, 10]
                @ t_convert_links t' ?content)"
    by blast
  have reg: "t_page_mapping t' = [(u ''2025_01_01'', ?name @ u ''.md'', [])]"
    using t'(3) by (simp add: journal_day_def t_init_def)
  have "t_convert_links t' ?content = t_convert_links ?t0 ?content"
    by (rule t_convert_links_cong) (simp_all add: reg t'(2))
  with body have links: "t_convert_links t' ?content
      = u ''**Hi** [2025_01_01](2025%E5%B9%B401%E6%9C%8801%E6%97%A5.md) [Ghost]''"
    by simp
  have page_file: "map_of (t_out_files t') (?name @ u ''.md'')
        = Some (u ''# 2025'' @ [24180] @ u ''01'' @ [26376] @ u ''01'' @ [26085, 10, 10]
                @ u ''Created by: LogSeq'' @ [23548, 20837, 10]
                @ [24320, 22987, 26085, 26399] @ u '': 01/01/2025'' @ [10]
                @ [29366, 24577] @ u '': Not started'' @ [10]
                @ [39029, 38754, 31867, 22411] @ u '': '' @ [26085, 24535, 10]
                @ [25688, 35201] @ u '': Hi [[2025_01_01]] [[Ghost]]'' @ [10, 10]
                @ u ''---'' @ [10, 10]
                @ u ''**Hi** [2025_01_01](2025%E5%B9%B401%E6%9C%8801%E6%97%A5.md) [Ghost]'')"
    unfolding t'(4) summary links by (simp add: u_def)
  from t'(1) reg page_file show ?thesis by (intro exI[of _ t']) simp
qed

end
